theory Spec2Isabelle
  imports Complex_Main "HOL-Library.Monad_Syntax"
begin

section \<open>Mass-spring soft body (2D): the model of main.cpp\<close>

text \<open>
  The simulation core of \<^verbatim>\<open>Mass Spring 2D/main.cpp\<close>: the point masses
  (\<^verbatim>\<open>RigidBody\<close>), the grid (\<^verbatim>\<open>SoftBody\<close>), the integrator
  (\<^verbatim>\<open>IntegrateLinear\<close>), one physics step (\<^verbatim>\<open>update\<close>) and the
  fixed-timestep scheduler (\<^verbatim>\<open>checkTime\<close>).

  Numbers. The values of the C++ types \<^verbatim>\<open>float\<close> and \<^verbatim>\<open>double\<close> are modelled by
  \<^typ>\<open>real\<close>. The rounding of an operation is written out where a result of the program
  depends on it discretely: in the \<^verbatim>\<open>double\<close> arithmetic of the scheduler (the
  accumulator decides how many steps run), in the quotient \<^verbatim>\<open>1.0f / m\<close> of the inverse
  mass, and in the squared length \<^verbatim>\<open>dot(v, v)\<close> that \<^verbatim>\<open>normalize\<close> divides by (it
  rounds to zero for short vectors and overflows for long ones). The rounding of the
  other float operations (positions, velocities, forces) is idealised. A float operation
  whose result is not a real number (a division by zero, a normalisation whose squared
  length is zero or infinite: \<open>inf\<close> or \<open>NaN\<close> in C++) is written out as a branch of the
  model of its own; the model never relies on HOL's \<open>x / 0 = 0\<close>.
\<close>

subsection \<open>float and double: rounding\<close>

text \<open>
  IEEE 754 binary arithmetic returns the representable number nearest to the exact
  result, and of two equally near ones the one with the even significand.
  \<open>round_even y\<close> is the integer nearest to \<open>y\<close> with that tie rule and \<open>pow2 e\<close> is
  \<open>2^e\<close> for an integer \<open>e\<close>. \<open>float_round p emin x\<close> rounds \<open>x\<close> to \<open>p\<close> significant
  bits: to a multiple of \<open>2^(e - p + 1)\<close>, where \<open>e\<close> is the binary exponent of \<open>x\<close>,
  and never finer than \<open>2^(emin - p + 1)\<close> (gradual underflow: the subnormal numbers,
  then zero). The exponent is not bounded above here: for \<^verbatim>\<open>float\<close> a rounded
  magnitude of \<open>2^128\<close> or more is the \<open>inf\<close> of C++, and is tested for where it
  matters.
\<close>

definition round_even :: "real \<Rightarrow> int" where
  "round_even y =
     (let f = \<lfloor>y\<rfloor> in
      if y - of_int f < 1 / 2 then f
      else if 1 / 2 < y - of_int f then f + 1
      else if even f then f else f + 1)"

definition pow2 :: "int \<Rightarrow> real" where
  "pow2 e = (if 0 \<le> e then 2 ^ nat e else 1 / 2 ^ nat (- e))"

definition float_round :: "nat \<Rightarrow> int \<Rightarrow> real \<Rightarrow> real" where
  "float_round p emin x =
     (if x = 0 then 0
      else (let e = max emin \<lfloor>log 2 \<bar>x\<bar>\<rfloor>;
                u = pow2 (e - int p + 1)
            in u * of_int (round_even (x / u))))"

text \<open>
  \<^verbatim>\<open>float\<close> is binary32 (24 significant bits, least normal exponent \<open>-126\<close>) and
  \<^verbatim>\<open>double\<close> is binary64 (53 bits, least normal exponent \<open>-1022\<close>).
\<close>

definition round_float :: "real \<Rightarrow> real" where
  "round_float = float_round 24 (- 126)"

definition round_double :: "real \<Rightarrow> real" where
  "round_double = float_round 53 (- 1022)"

subsection \<open>glm::vec3\<close>

datatype vec3 = Vec3 (vx: real) (vy: real) (vz: real)

instantiation vec3 :: ab_group_add
begin
definition zero_vec3_def: "0 = Vec3 0 0 0"
definition plus_vec3_def: "a + b = Vec3 (vx a + vx b) (vy a + vy b) (vz a + vz b)"
definition uminus_vec3_def: "- a = Vec3 (- vx a) (- vy a) (- vz a)"
definition minus_vec3_def: "a - b = Vec3 (vx a - vx b) (vy a - vy b) (vz a - vz b)"
instance
  by standard
    (simp_all add: zero_vec3_def plus_vec3_def uminus_vec3_def minus_vec3_def vec3.expand)
end

text \<open>Scalar times vector (\<^verbatim>\<open>s * v\<close> and \<^verbatim>\<open>v * s\<close> of glm).\<close>

definition smul :: "real \<Rightarrow> vec3 \<Rightarrow> vec3" where
  "smul s v = Vec3 (s * vx v) (s * vy v) (s * vz v)"

text \<open>
  \<^verbatim>\<open>glm::length(v) = sqrt(dot(v, v))\<close>, idealised; the model uses it only where the
  squared length is positive and finite in \<^verbatim>\<open>float\<close> (where \<open>normalize\<close> below is
  defined).
\<close>

definition vlength :: "vec3 \<Rightarrow> real" where
  "vlength v = sqrt (vx v * vx v + vy v * vy v + vz v * vz v)"

text \<open>
  \<^verbatim>\<open>glm::dot(v, v)\<close> in \<^verbatim>\<open>float\<close>: the three products, then the two sums, each
  rounded.
\<close>

definition dot_float :: "vec3 \<Rightarrow> real" where
  "dot_float v =
     round_float (round_float (round_float (vx v * vx v) + round_float (vy v * vy v))
                  + round_float (vz v * vz v))"

text \<open>
  \<^verbatim>\<open>glm::normalize(v) = v * inversesqrt(dot(v, v))\<close>. When the squared length is zero
  in \<^verbatim>\<open>float\<close> (for the zero vector, and for every vector so short that its squared
  components all round to zero) this is \<open>v * inf\<close>: \<open>inf\<close> or \<open>NaN\<close> in every component.
  When the squared length overflows, \<^verbatim>\<open>inversesqrt\<close> gives \<open>0\<close> and \<^verbatim>\<open>glm::length\<close>
  gives \<open>inf\<close>: the result is no direction either. The model returns \<open>None\<close> in both cases
  (the terms of the squared length are not negative, so it is infinite iff its last sum
  is \<open>2^128\<close> or more). The source has no test for either case. Where the squared length
  is positive and finite, the direction is idealised.
\<close>

definition normalize :: "vec3 \<Rightarrow> vec3 option" where
  "normalize v =
     (if dot_float v = 0 \<or> 2 ^ 128 \<le> dot_float v then None
      else Some (smul (1 / vlength v) v))"

subsection \<open>struct RigidBody\<close>

record RigidBody =
  mass :: real
  inverseMass :: real
  position :: vec3
  velocity :: vec3
  acceleration :: vec3
  netForce :: vec3
  netImpulse :: vec3

text \<open>The default constructor \<^verbatim>\<open>RigidBody::RigidBody()\<close>.\<close>

definition RigidBody_default :: RigidBody where
  "RigidBody_default =
     \<lparr>mass = 1, inverseMass = 1, position = Vec3 0 0 0, velocity = Vec3 0 0 0,
      acceleration = Vec3 0 0 0, netForce = 0, netImpulse = 0\<rparr>"

text \<open>
  The parameterized constructor \<^verbatim>\<open>RigidBody::RigidBody(pos, vel, acc, m)\<close>:
  \<^verbatim>\<open>inverseMass = m == 0.0f ? 0.0f : 1.0f / m\<close>, the quotient rounded to \<^verbatim>\<open>float\<close>.
  For a mass below \<open>2^-128\<close> in magnitude (a subnormal \<^verbatim>\<open>float\<close>) the quotient
  overflows and the field is \<open>inf\<close> in C++, which the field of the model cannot hold:
  what is stated about the inverse mass of such a node carries a bound on \<open>m\<close>.
\<close>

definition RigidBody_ctor :: "vec3 \<Rightarrow> vec3 \<Rightarrow> vec3 \<Rightarrow> real \<Rightarrow> RigidBody" where
  "RigidBody_ctor pos vel acc m =
     \<lparr>mass = m, inverseMass = (if m = 0 then 0 else round_float (1 / m)), position = pos,
      velocity = vel, acceleration = acc, netForce = 0, netImpulse = 0\<rparr>"

subsection \<open>IntegrateLinear\<close>

text \<open>
  The statements of \<^verbatim>\<open>IntegrateLinear(dt, body)\<close> in their order; \<open>b1\<close>, \<open>b2\<close>,
  \<open>b3\<close> are the body after the first, second and third assignment.
\<close>

definition IntegrateLinear :: "real \<Rightarrow> RigidBody \<Rightarrow> RigidBody" where
  "IntegrateLinear dt body =
     (let b1 = body\<lparr>acceleration := smul (inverseMass body) (netForce body)\<rparr>;
          v0dT = smul dt (velocity b1);
          aT2 = smul (dt ^ 2) (smul 0.5 (acceleration b1));
          b2 = b1\<lparr>position := position b1 + (v0dT + aT2)\<rparr>;
          b3 = b2\<lparr>velocity := velocity b2
                  + (smul dt (acceleration b2) + smul (inverseMass b2) (netImpulse b2))\<rparr>
      in b3\<lparr>netForce := 0, netImpulse := 0\<rparr>)"

subsection \<open>struct SoftBody\<close>

text \<open>
  \<open>bodies\<close> is the array of rows \<^verbatim>\<open>RigidBody** bodies\<close>: \<open>bodies g ! i ! j\<close> is
  \<^verbatim>\<open>body->bodies[i][j]\<close>, row \<open>i\<close> of \<open>subdivisionsY\<close> rows, column \<open>j\<close> of
  \<open>subdivisionsX\<close> columns. \<open>numRigidBodies\<close> is an \<^verbatim>\<open>unsigned int\<close>.
\<close>

record SoftBody =
  subdivisionsX :: int
  subdivisionsY :: int
  restHeight :: real
  restWidth :: real
  numRigidBodies :: nat
  bodies :: "RigidBody list list"
  coefficient :: real
  dampening :: real

text \<open>
  What \<^verbatim>\<open>new SoftBody(width, height, subX, subY, coeff, damp)\<close> does. The constructor
  tests none of its arguments, so the three outcomes are those of its statements:
  \<^item> \<open>Built g\<close>: the object \<open>g\<close> is constructed, all its numbers are reals;
  \<^item> \<open>BuiltNonFinite\<close>: the object is constructed, and \<^verbatim>\<open>width / subdivisionsX\<close> or
    \<^verbatim>\<open>height / subdivisionsY\<close> divided a float by zero, so that a rest length is
    \<open>inf\<close> or \<open>NaN\<close> (no row or no column holds a node then);
  \<^item> \<open>AllocationThrows\<close>: \<^verbatim>\<open>new RigidBody*[subY]\<close> or \<^verbatim>\<open>new RigidBody[subX]\<close>
    was reached with a negative length, and the new-expression throws.
\<close>

datatype construction = Built SoftBody | BuiltNonFinite | AllocationThrows

definition SoftBody_ctor ::
  "real \<Rightarrow> real \<Rightarrow> int \<Rightarrow> int \<Rightarrow> real \<Rightarrow> real \<Rightarrow> construction" where
  "SoftBody_ctor width height subX subY coeff damp =
     (if subY < 0 \<or> (0 < subY \<and> subX < 0) then AllocationThrows
      else if subX = 0 \<or> subY = 0 then BuiltNonFinite
      else
        (let startWidth = - width / 2;
             widthStep = width / real_of_int subX;
             startHeight = - height / 2;
             heightStep = height / real_of_int subY
         in Built
           \<lparr>subdivisionsX = subX, subdivisionsY = subY,
            restHeight = heightStep, restWidth = widthStep,
            numRigidBodies = nat ((subX * subY) mod 2 ^ 32),
            bodies =
              map (\<lambda>i. map (\<lambda>j. RigidBody_ctor
                      (Vec3 (startWidth + widthStep * real j) (startHeight + heightStep * real i) 0)
                      (Vec3 0 0 0) (Vec3 0 0 0) 1)
                    [0..<nat subX])
                [0..<nat subY],
            coefficient = coeff, dampening = damp\<rparr>))"

subsection \<open>The held input\<close>

text \<open>
  What \<^verbatim>\<open>update\<close> reads from the window: \<open>leftShift\<close> is
  \<^verbatim>\<open>glfwGetKey(window, GLFW_KEY_LEFT_SHIFT) == GLFW_PRESS\<close>, \<open>mouseButton0\<close> and
  \<open>mouseButton1\<close> are \<^verbatim>\<open>glfwGetMouseButton(window, 0) == GLFW_PRESS\<close> and the same
  for button 1.
\<close>

record Input =
  leftShift :: bool
  mouseButton0 :: bool
  mouseButton1 :: bool

text \<open>The first part of \<^verbatim>\<open>update\<close>: the external force of this step.\<close>

definition externalForce :: "Input \<Rightarrow> vec3" where
  "externalForce inp =
     (let e0 = Vec3 0 0 0 in
      if leftShift inp then
        (let e1 = (if mouseButton0 inp then Vec3 (vx e0) 2 (vz e0) else e0);
             e2 = (if mouseButton1 inp then Vec3 (vx e1) (- 2) (vz e1) else e1)
         in e2)
      else
        (let e1 = (if mouseButton0 inp then Vec3 2 (vy e0) (vz e0) else e0);
             e2 = (if mouseButton1 inp then Vec3 (- 2) (vy e1) (vz e1) else e1)
         in e2))"

subsection \<open>update: the forces\<close>

text \<open>An assignment to one node in place: \<^verbatim>\<open>bodies[i][j] = h(bodies[i][j])\<close>.\<close>

definition upd_body :: "SoftBody \<Rightarrow> nat \<Rightarrow> nat \<Rightarrow> (RigidBody \<Rightarrow> RigidBody) \<Rightarrow> SoftBody" where
  "upd_body g i j h = g\<lparr>bodies := (bodies g)[i := (bodies g ! i)[j := h (bodies g ! i ! j)]]\<rparr>"

text \<open>\<^verbatim>\<open>body->bodies[i][j].netForce += f\<close>.\<close>

definition add_netForce :: "SoftBody \<Rightarrow> nat \<Rightarrow> nat \<Rightarrow> vec3 \<Rightarrow> SoftBody" where
  "add_netForce g i j f = upd_body g i j (\<lambda>b. b\<lparr>netForce := netForce b + f\<rparr>)"

text \<open>
  The right-hand side of one of the four \<^verbatim>\<open>netForce +=\<close> statements, for node
  \<open>(i, j)\<close> and its neighbour \<open>(ni, nj)\<close>: displacement, direction, magnitude, then
  \<^verbatim>\<open>coefficient * (mag - rest) * direction - velocity * dampening\<close>. \<open>None\<close> when the
  normalisation gives no direction.
\<close>

definition spring_force :: "SoftBody \<Rightarrow> nat \<Rightarrow> nat \<Rightarrow> nat \<Rightarrow> nat \<Rightarrow> real \<Rightarrow> vec3 option" where
  "spring_force g i j ni nj rest =
     (let displacement = position (bodies g ! ni ! nj) - position (bodies g ! i ! j) in
      case normalize displacement of
        None \<Rightarrow> None
      | Some direction \<Rightarrow>
          (let mag = vlength displacement in
           Some (smul (coefficient g * (mag - rest)) direction
                 - smul (dampening g) (velocity (bodies g ! i ! j)))))"

definition apply_spring :: "SoftBody \<Rightarrow> nat \<Rightarrow> nat \<Rightarrow> nat \<Rightarrow> nat \<Rightarrow> real \<Rightarrow> SoftBody option" where
  "apply_spring g i j ni nj rest = map_option (add_netForce g i j) (spring_force g i j ni nj rest)"

text \<open>
  The body of the two nested loops of the force pass, for node \<open>(i, j)\<close>: the four
  guarded blocks (above, below, left, right) and the external force on row 0, in the
  order of the source.
\<close>

definition node_forces :: "vec3 \<Rightarrow> nat \<Rightarrow> nat \<Rightarrow> SoftBody \<Rightarrow> SoftBody option" where
  "node_forces ext i j g =
     do {
       g1 \<leftarrow> (if 0 < i then apply_spring g i j (i - 1) j (restHeight g) else Some g);
       g2 \<leftarrow> (if int i < subdivisionsY g1 - 1
              then apply_spring g1 i j (i + 1) j (restHeight g1) else Some g1);
       g3 \<leftarrow> (if 0 < j then apply_spring g2 i j i (j - 1) (restWidth g2) else Some g2);
       g4 \<leftarrow> (if int j < subdivisionsX g3 - 1
              then apply_spring g3 i j i (j + 1) (restWidth g3) else Some g3);
       Some (if i = 0 then add_netForce g4 i j ext else g4)
     }"

text \<open>
  \<^verbatim>\<open>for (int k = 0; k < n; ++k) s = f(k, s)\<close> over the index list \<open>[0..<n]\<close>, where
  a step that left the reals ends the run.
\<close>

primrec for_each :: "nat list \<Rightarrow> (nat \<Rightarrow> 's \<Rightarrow> 's option) \<Rightarrow> 's \<Rightarrow> 's option" where
  "for_each [] f s = Some s"
| "for_each (k # ks) f s = (case f k s of None \<Rightarrow> None | Some s' \<Rightarrow> for_each ks f s')"

definition accumulate_forces :: "vec3 \<Rightarrow> SoftBody \<Rightarrow> SoftBody option" where
  "accumulate_forces ext g =
     for_each [0..<nat (subdivisionsY g)]
       (\<lambda>i gi. for_each [0..<nat (subdivisionsX gi)] (\<lambda>j. node_forces ext i j) gi) g"

subsection \<open>update: the integration\<close>

text \<open>
  The second pair of loops: \<^verbatim>\<open>IntegrateLinear(dt, body->bodies[i][j])\<close> for every node.
  The copy of the position into the mesh's vertex array is rendering and is left out.
\<close>

definition integrate_all :: "real \<Rightarrow> SoftBody \<Rightarrow> SoftBody" where
  "integrate_all dt g =
     fold (\<lambda>i gi. fold (\<lambda>j gj. upd_body gj i j (IntegrateLinear dt)) [0..<nat (subdivisionsX gi)] gi)
       [0..<nat (subdivisionsY g)] g"

text \<open>\<^verbatim>\<open>update(dt)\<close> on the grid, with the input held during the step.\<close>

definition update :: "Input \<Rightarrow> real \<Rightarrow> SoftBody \<Rightarrow> SoftBody option" where
  "update inp dt g =
     do {
       g1 \<leftarrow> accumulate_forces (externalForce inp) g;
       Some (integrate_all dt g1)
     }"

text \<open>
  The arrays have the size the counts say: \<open>subdivisionsY\<close> rows of \<open>subdivisionsX\<close>
  nodes. Every access \<^verbatim>\<open>bodies[i][j]\<close> of \<^verbatim>\<open>update\<close> is in range then.
\<close>

definition grid_ok :: "SoftBody \<Rightarrow> bool" where
  "grid_ok g \<longleftrightarrow>
     length (bodies g) = nat (subdivisionsY g)
     \<and> (\<forall>i < length (bodies g). length (bodies g ! i) = nat (subdivisionsX g))"

subsection \<open>checkTime: the fixed-timestep scheduler\<close>

text \<open>
  The globals of the program. \<open>time\<close>, \<open>timebase\<close>, \<open>accumulator\<close> and \<open>physicsStep\<close> are
  the \<^verbatim>\<open>double\<close>s of that name and \<open>body\<close> is \<^verbatim>\<open>struct SoftBody* body\<close>, \<open>None\<close> once
  a step has left the reals (its numbers are \<open>NaN\<close> from then on). \<open>updates\<close> is not in the
  source: it counts the calls of \<^verbatim>\<open>update\<close>, so that the number of physics steps can be
  stated. The sum and the differences of \<^verbatim>\<open>double\<close>s that the scheduler computes are
  rounded to \<^verbatim>\<open>double\<close> (\<open>round_double\<close>); the times of a frame are far from the
  largest \<^verbatim>\<open>double\<close>, and overflow is left out.
\<close>

record World =
  time :: real
  timebase :: real
  accumulator :: real
  physicsStep :: real
  body :: "SoftBody option"
  updates :: nat

text \<open>
  The loop \<^verbatim>\<open>while (accumulator >= physicsStep) { update(physicsStep); accumulator -= physicsStep; }\<close>.
  \<^verbatim>\<open>update\<close> takes a \<^verbatim>\<open>float\<close>: the call narrows \<open>physicsStep\<close>. The loop does not end
  when \<open>physicsStep \<le> 0 \<le> accumulator\<close>, nor when \<open>physicsStep\<close> is so small against
  the accumulator that the rounded difference is the accumulator again: not returning is
  \<open>None\<close>.
\<close>

partial_function (option) drain :: "Input \<Rightarrow> World \<Rightarrow> World option" where
  "drain inp w =
     (if accumulator w \<ge> physicsStep w
      then drain inp
             (w\<lparr>body := body w \<bind> update inp (round_float (physicsStep w)),
                updates := Suc (updates w),
                accumulator := round_double (accumulator w - physicsStep w)\<rparr>)
      else Some w)"

text \<open>
  \<^verbatim>\<open>checkTime()\<close>, with \<open>t\<close> the \<^verbatim>\<open>double\<close> that \<^verbatim>\<open>glfwGetTime()\<close> returns and \<open>inp\<close>
  the input held during the frame (the events are polled once per frame, after
  \<^verbatim>\<open>checkTime\<close>).
\<close>

definition checkTime :: "Input \<Rightarrow> real \<Rightarrow> World \<Rightarrow> World option" where
  "checkTime inp t w =
     (let w1 = w\<lparr>time := t\<rparr>;
          dt = round_double (time w1 - timebase w1)
      in if dt > physicsStep w1 then
           (let w2 = w1\<lparr>timebase := time w1\<rparr>;
                dt' = (if dt > 0.25 then 0.25 else dt);
                w3 = w2\<lparr>accumulator := round_double (accumulator w2 + dt')\<rparr>
            in drain inp w3)
         else Some w1)"

text \<open>A run of frames: one call of \<^verbatim>\<open>checkTime\<close> for each reported time.\<close>

fun frames :: "Input \<Rightarrow> real list \<Rightarrow> World \<Rightarrow> World option" where
  "frames inp [] w = Some w"
| "frames inp (t # ts) w = (case checkTime inp t w of None \<Rightarrow> None | Some w' \<Rightarrow> frames inp ts w')"

text \<open>
  The state \<^verbatim>\<open>main\<close> starts the loop in: the initial values of the globals
  (\<^verbatim>\<open>double physicsStep = 0.012\<close> is the \<^verbatim>\<open>double\<close> nearest to \<open>0.012\<close>) and
  \<^verbatim>\<open>new SoftBody(1.0f, 1.0f, 10, 10, 25.0f, 0.5f)\<close>; and the input with nothing held.
\<close>

definition main_body :: "SoftBody option" where
  "main_body = (case SoftBody_ctor 1 1 10 10 25 0.5 of Built g \<Rightarrow> Some g | _ \<Rightarrow> None)"

definition initial_world :: World where
  "initial_world =
     \<lparr>time = 0, timebase = 0, accumulator = 0, physicsStep = round_double 0.012,
      body = main_body, updates = 0\<rparr>"

definition no_input :: Input where
  "no_input = \<lparr>leftShift = False, mouseButton0 = False, mouseButton1 = False\<rparr>"

subsection \<open>Notions of the claims\<close>

text \<open>
  The force pass in the words of the specification. \<open>neighbours4 g i j\<close> lists the four
  structural neighbours of node \<open>(i, j)\<close> (up, down, left, right) with the rest length of
  the link: \<open>restHeight\<close> for the vertical ones, \<open>restWidth\<close> for the horizontal ones.
  \<open>links\<close> keeps those inside the grid. \<open>contribution g i j l\<close> is
  \<open>stiffness * (|d| - restLen) * (d / |d|) - damping * velocity\<close> for the link \<open>l\<close>, with
  \<open>d = neighbour.position - self.position\<close>. \<open>on_border n k\<close>: index \<open>k\<close> is the first or
  the last of \<open>n\<close>; a corner node has both indices on the border, an edge node one, an
  interior node none.
\<close>

definition in_grid :: "SoftBody \<Rightarrow> int \<times> int \<Rightarrow> bool" where
  "in_grid g p \<longleftrightarrow> 0 \<le> fst p \<and> fst p < subdivisionsY g \<and> 0 \<le> snd p \<and> snd p < subdivisionsX g"

definition neighbours4 :: "SoftBody \<Rightarrow> nat \<Rightarrow> nat \<Rightarrow> ((int \<times> int) \<times> real) list" where
  "neighbours4 g i j =
     [((int i - 1, int j), restHeight g), ((int i + 1, int j), restHeight g),
      ((int i, int j - 1), restWidth g), ((int i, int j + 1), restWidth g)]"

definition links :: "SoftBody \<Rightarrow> nat \<Rightarrow> nat \<Rightarrow> ((int \<times> int) \<times> real) list" where
  "links g i j = filter (\<lambda>l. in_grid g (fst l)) (neighbours4 g i j)"

definition displacement_to :: "SoftBody \<Rightarrow> nat \<Rightarrow> nat \<Rightarrow> int \<times> int \<Rightarrow> vec3" where
  "displacement_to g i j p =
     position (bodies g ! nat (fst p) ! nat (snd p)) - position (bodies g ! i ! j)"

definition contribution :: "SoftBody \<Rightarrow> nat \<Rightarrow> nat \<Rightarrow> (int \<times> int) \<times> real \<Rightarrow> vec3" where
  "contribution g i j l =
     (let d = displacement_to g i j (fst l) in
      smul (coefficient g * (vlength d - snd l)) (smul (1 / vlength d) d)
      - smul (dampening g) (velocity (bodies g ! i ! j)))"

definition on_border :: "int \<Rightarrow> nat \<Rightarrow> bool" where
  "on_border n k \<longleftrightarrow> k = 0 \<or> int k = n - 1"

text \<open>Two nodes joined by a link are at the same position.\<close>

definition coincident_link :: "SoftBody \<Rightarrow> bool" where
  "coincident_link g \<longleftrightarrow>
     (\<exists>i < nat (subdivisionsY g). \<exists>j < nat (subdivisionsX g).
        (int i < subdivisionsY g - 1
           \<and> position (bodies g ! (i + 1) ! j) = position (bodies g ! i ! j))
        \<or> (int j < subdivisionsX g - 1
           \<and> position (bodies g ! i ! (j + 1)) = position (bodies g ! i ! j)))"

text \<open>
  A link without direction: the normalisation of the displacement between its two nodes
  gives none. \<open>in_float_range v\<close>: the components of \<open>v\<close> are at most \<open>2^60\<close> in
  magnitude and one of them is at least \<open>2^-60\<close>, so that the squared length of \<open>v\<close>
  neither underflows nor overflows in \<^verbatim>\<open>float\<close>; \<open>links_in_float_range g\<close>: the
  displacement of every link of \<open>g\<close> is.
\<close>

definition degenerate_link :: "SoftBody \<Rightarrow> bool" where
  "degenerate_link g \<longleftrightarrow>
     (\<exists>i < nat (subdivisionsY g). \<exists>j < nat (subdivisionsX g).
        (int i < subdivisionsY g - 1
           \<and> normalize (position (bodies g ! (i + 1) ! j) - position (bodies g ! i ! j)) = None)
        \<or> (int j < subdivisionsX g - 1
           \<and> normalize (position (bodies g ! i ! (j + 1)) - position (bodies g ! i ! j)) = None))"

definition in_float_range :: "vec3 \<Rightarrow> bool" where
  "in_float_range v \<longleftrightarrow>
     \<bar>vx v\<bar> \<le> 2 ^ 60 \<and> \<bar>vy v\<bar> \<le> 2 ^ 60 \<and> \<bar>vz v\<bar> \<le> 2 ^ 60
     \<and> (1 / 2 ^ 60 \<le> \<bar>vx v\<bar> \<or> 1 / 2 ^ 60 \<le> \<bar>vy v\<bar> \<or> 1 / 2 ^ 60 \<le> \<bar>vz v\<bar>)"

definition links_in_float_range :: "SoftBody \<Rightarrow> bool" where
  "links_in_float_range g \<longleftrightarrow>
     (\<forall>i < nat (subdivisionsY g). \<forall>j < nat (subdivisionsX g).
        (int i < subdivisionsY g - 1 \<longrightarrow>
           in_float_range (position (bodies g ! (i + 1) ! j) - position (bodies g ! i ! j)))
        \<and> (int j < subdivisionsX g - 1 \<longrightarrow>
           in_float_range (position (bodies g ! i ! (j + 1)) - position (bodies g ! i ! j))))"

text \<open>The object the constructor builds when both counts are positive.\<close>

definition lattice :: "real \<Rightarrow> real \<Rightarrow> int \<Rightarrow> int \<Rightarrow> real \<Rightarrow> real \<Rightarrow> SoftBody" where
  "lattice width height subX subY coeff damp =
     \<lparr>subdivisionsX = subX, subdivisionsY = subY,
      restHeight = height / real_of_int subY, restWidth = width / real_of_int subX,
      numRigidBodies = nat ((subX * subY) mod 2 ^ 32),
      bodies =
        map (\<lambda>i. map (\<lambda>j. RigidBody_ctor
                (Vec3 (- width / 2 + width / real_of_int subX * real j)
                   (- height / 2 + height / real_of_int subY * real i) 0)
                (Vec3 0 0 0) (Vec3 0 0 0) 1)
              [0..<nat subX])
          [0..<nat subY],
      coefficient = coeff, dampening = damp\<rparr>"

text \<open>
  The rest configuration, laid out as the constructor lays a grid out: every node has
  zero velocity and empty accumulators, the node above a node (row \<open>i + 1\<close>) is displaced
  from it by exactly \<open>(0, restHeight, 0)\<close> and the node to its right (column \<open>j + 1\<close>) by
  exactly \<open>(restWidth, 0, 0)\<close>. \<open>rest_in_range g\<close>: both rest lengths lie between
  \<open>2^-60\<close> and \<open>2^60\<close>. \<open>same_motion g g'\<close>: the nodes of \<open>g'\<close> have the positions and
  velocities of those of \<open>g\<close>.
\<close>

definition at_rest :: "SoftBody \<Rightarrow> bool" where
  "at_rest g \<longleftrightarrow>
     (\<forall>i < nat (subdivisionsY g). \<forall>j < nat (subdivisionsX g).
        velocity (bodies g ! i ! j) = 0
        \<and> netForce (bodies g ! i ! j) = 0 \<and> netImpulse (bodies g ! i ! j) = 0
        \<and> (int i < subdivisionsY g - 1 \<longrightarrow>
             position (bodies g ! (i + 1) ! j) - position (bodies g ! i ! j)
               = Vec3 0 (restHeight g) 0)
        \<and> (int j < subdivisionsX g - 1 \<longrightarrow>
             position (bodies g ! i ! (j + 1)) - position (bodies g ! i ! j)
               = Vec3 (restWidth g) 0 0))"

definition rest_in_range :: "SoftBody \<Rightarrow> bool" where
  "rest_in_range g \<longleftrightarrow>
     1 / 2 ^ 60 \<le> restHeight g \<and> restHeight g \<le> 2 ^ 60
     \<and> 1 / 2 ^ 60 \<le> restWidth g \<and> restWidth g \<le> 2 ^ 60"

definition same_motion :: "SoftBody \<Rightarrow> SoftBody \<Rightarrow> bool" where
  "same_motion g g' \<longleftrightarrow>
     (\<forall>i < nat (subdivisionsY g). \<forall>j < nat (subdivisionsX g).
        position (bodies g' ! i ! j) = position (bodies g ! i ! j)
        \<and> velocity (bodies g' ! i ! j) = velocity (bodies g ! i ! j))"

text \<open>The centre of the lattice: the mean of the positions of its nodes.\<close>

definition centroid :: "SoftBody \<Rightarrow> vec3" where
  "centroid g =
     smul (1 / real (length (concat (bodies g)))) (sum_list (map position (concat (bodies g))))"

text \<open>
  The scheduler in the words of the specification. \<open>turns n step a\<close>: started with the
  accumulator \<open>a\<close>, the loop of \<open>drain\<close> makes exactly \<open>n\<close> turns (each subtraction
  rounded), and \<open>drain_acc n step a\<close> is the accumulator after them; \<open>drained inp n w\<close> is
  \<open>w\<close> after \<open>n\<close> turns of the loop. \<open>clamped_total step tb ts\<close> is the sum of the clamped
  \<open>dt\<close> of the frames of \<open>ts\<close> that passed the test \<^verbatim>\<open>dt > physicsStep\<close>, from
  \<open>timebase = tb\<close> on. \<open>on_grid k x\<close>: \<open>x\<close> is an integer multiple of \<open>2^-k\<close> of
  magnitude below \<open>2^(51 - k)\<close>; sums and differences of two such numbers are
  \<^verbatim>\<open>double\<close>s when \<open>k \<le> 1074\<close>, so that the scheduler's arithmetic on them is exact.
\<close>

primrec turns :: "nat \<Rightarrow> real \<Rightarrow> real \<Rightarrow> bool" where
  "turns 0 step a \<longleftrightarrow> a < step"
| "turns (Suc n) step a \<longleftrightarrow> step \<le> a \<and> turns n step (round_double (a - step))"

primrec drain_acc :: "nat \<Rightarrow> real \<Rightarrow> real \<Rightarrow> real" where
  "drain_acc 0 step a = a"
| "drain_acc (Suc n) step a = drain_acc n step (round_double (a - step))"

definition drained :: "Input \<Rightarrow> nat \<Rightarrow> World \<Rightarrow> World" where
  "drained inp n w =
     w\<lparr>body := ((\<lambda>b. b \<bind> update inp (round_float (physicsStep w))) ^^ n) (body w),
       updates := updates w + n,
       accumulator := drain_acc n (physicsStep w) (accumulator w)\<rparr>"

fun clamped_total :: "real \<Rightarrow> real \<Rightarrow> real list \<Rightarrow> real" where
  "clamped_total step tb [] = 0"
| "clamped_total step tb (t # ts) =
     (if step < round_double (t - tb)
      then min (round_double (t - tb)) 0.25 + clamped_total step t ts
      else clamped_total step tb ts)"

definition on_grid :: "nat \<Rightarrow> real \<Rightarrow> bool" where
  "on_grid k x \<longleftrightarrow> of_int \<lfloor>x * 2 ^ k\<rfloor> = x * 2 ^ k \<and> \<bar>x\<bar> * 2 ^ k < 2 ^ 51"

subsection \<open>Notions for the proofs\<close>

text \<open>
  \<open>node_total ext g i j\<close> is the sum of what the force pass adds to the \<open>netForce\<close> of
  node \<open>(i, j)\<close>, with every term read from \<open>g\<close>; \<open>with_force\<close> is the node after
  that. \<open>touched P H g0 g\<close> says that \<open>g\<close> is \<open>g0\<close> with \<open>H i j\<close> applied in place to
  the nodes \<open>(i, j)\<close> that satisfy \<open>P\<close>, and nothing else changed: the state of a pass
  over the grid that has come as far as \<open>P\<close>.
\<close>

definition scalars_eq :: "SoftBody \<Rightarrow> SoftBody \<Rightarrow> bool" where
  "scalars_eq g g' \<longleftrightarrow>
     subdivisionsX g' = subdivisionsX g \<and> subdivisionsY g' = subdivisionsY g
     \<and> restHeight g' = restHeight g \<and> restWidth g' = restWidth g
     \<and> numRigidBodies g' = numRigidBodies g
     \<and> coefficient g' = coefficient g \<and> dampening g' = dampening g"

definition touched ::
  "(nat \<Rightarrow> nat \<Rightarrow> bool) \<Rightarrow> (nat \<Rightarrow> nat \<Rightarrow> RigidBody \<Rightarrow> RigidBody) \<Rightarrow> SoftBody \<Rightarrow> SoftBody \<Rightarrow> bool" where
  "touched P H g0 g \<longleftrightarrow>
     scalars_eq g0 g \<and> length (bodies g) = length (bodies g0)
     \<and> (\<forall>i < length (bodies g0). length (bodies g ! i) = length (bodies g0 ! i)
          \<and> (\<forall>j < length (bodies g0 ! i).
                bodies g ! i ! j = (if P i j then H i j (bodies g0 ! i ! j) else bodies g0 ! i ! j)))"

definition node_total :: "vec3 \<Rightarrow> SoftBody \<Rightarrow> nat \<Rightarrow> nat \<Rightarrow> vec3 option" where
  "node_total ext g i j =
     do {
       f1 \<leftarrow> (if 0 < i then spring_force g i j (i - 1) j (restHeight g) else Some 0);
       f2 \<leftarrow> (if int i < subdivisionsY g - 1
              then spring_force g i j (i + 1) j (restHeight g) else Some 0);
       f3 \<leftarrow> (if 0 < j then spring_force g i j i (j - 1) (restWidth g) else Some 0);
       f4 \<leftarrow> (if int j < subdivisionsX g - 1
              then spring_force g i j i (j + 1) (restWidth g) else Some 0);
       Some (f1 + f2 + f3 + f4 + (if i = 0 then ext else 0))
     }"

definition with_force :: "vec3 \<Rightarrow> SoftBody \<Rightarrow> nat \<Rightarrow> nat \<Rightarrow> RigidBody \<Rightarrow> RigidBody" where
  "with_force ext g0 i j b =
     b\<lparr>netForce := netForce b + (case node_total ext g0 i j of Some f \<Rightarrow> f | None \<Rightarrow> 0)\<rparr>"

text \<open>\<open>is_multiple k x\<close>: \<open>x\<close> is an integer multiple of \<open>2^-k\<close>.\<close>

definition is_multiple :: "nat \<Rightarrow> real \<Rightarrow> bool" where
  "is_multiple k x \<longleftrightarrow> of_int \<lfloor>x * 2 ^ k\<rfloor> = x * 2 ^ k"

text \<open>
  \<open>stepped ext dt g i j\<close> is what one call of \<^verbatim>\<open>update\<close> does to node \<open>(i, j)\<close> of \<open>g\<close>:
  the forces of the pass, then the integration.
\<close>

definition stepped :: "vec3 \<Rightarrow> real \<Rightarrow> SoftBody \<Rightarrow> nat \<Rightarrow> nat \<Rightarrow> RigidBody \<Rightarrow> RigidBody" where
  "stepped ext dt g i j b = IntegrateLinear dt (with_force ext g i j b)"

section \<open>Facts about the model\<close>

lemma pow2_powr: "pow2 e = 2 powr (of_int e)"
  by (simp add: pow2_def powr_real_of_int inverse_eq_divide)

lemma pow2_pos [simp]: "0 < pow2 e"
  by (simp add: pow2_powr)

lemma pow2_nonneg [simp]: "0 \<le> pow2 e"
  using pow2_pos [of e] by linarith

lemma pow2_neq0 [simp]: "pow2 e \<noteq> 0"
  using pow2_pos [of e] by linarith

lemma pow2_not_le0 [simp]: "\<not> pow2 e \<le> 0"
  using pow2_pos [of e] by linarith

lemma pow2_abs [simp]: "\<bar>pow2 e\<bar> = pow2 e"
  by simp

lemma pow2_add: "pow2 (a + b) = pow2 a * pow2 b"
  by (simp add: pow2_powr powr_add)

lemma pow2_diff: "pow2 (a - b) = pow2 a / pow2 b"
  by (simp add: pow2_powr powr_diff)

lemma pow2_nat: "pow2 (int n) = 2 ^ n"
  by (simp add: pow2_def)

lemma pow2_mono: "a \<le> b \<Longrightarrow> pow2 a \<le> pow2 b"
  by (simp add: pow2_powr)

lemma pow2_less: "a < b \<Longrightarrow> pow2 a < pow2 b"
  by (simp add: pow2_powr)

lemma pow2_0 [simp]: "pow2 0 = 1"
  by (simp add: pow2_def)

lemma floor_log2_eq:
  assumes "pow2 e \<le> \<bar>x\<bar>" "\<bar>x\<bar> < pow2 (e + 1)"
  shows "\<lfloor>log 2 \<bar>x\<bar>\<rfloor> = e"
proof -
  have x: "0 < \<bar>x\<bar>" using assms(1) pow2_pos [of e] by linarith
  have "of_int e \<le> log 2 \<bar>x\<bar>"
    using assms(1) x by (simp add: pow2_powr le_log_iff)
  moreover have "log 2 \<bar>x\<bar> < of_int (e + 1)"
    using assms(2) x by (simp add: pow2_powr log_less_iff)
  ultimately show ?thesis by linarith
qed

lemma floor_log2_bounds:
  assumes "x \<noteq> 0"
  shows "pow2 \<lfloor>log 2 \<bar>x\<bar>\<rfloor> \<le> \<bar>x\<bar>" "\<bar>x\<bar> < pow2 (\<lfloor>log 2 \<bar>x\<bar>\<rfloor> + 1)"
proof -
  have x: "0 < \<bar>x\<bar>" using assms by simp
  have "of_int \<lfloor>log 2 \<bar>x\<bar>\<rfloor> \<le> log 2 \<bar>x\<bar>" by simp
  then have "2 powr (of_int \<lfloor>log 2 \<bar>x\<bar>\<rfloor>) \<le> \<bar>x\<bar>"
    using le_log_iff [of 2 "\<bar>x\<bar>" "of_int \<lfloor>log 2 \<bar>x\<bar>\<rfloor>"] x by fastforce
  then show "pow2 \<lfloor>log 2 \<bar>x\<bar>\<rfloor> \<le> \<bar>x\<bar>"
    by (simp only: pow2_powr)
  have "log 2 \<bar>x\<bar> < of_int (\<lfloor>log 2 \<bar>x\<bar>\<rfloor> + 1)" by linarith
  then have "\<bar>x\<bar> < 2 powr (of_int (\<lfloor>log 2 \<bar>x\<bar>\<rfloor> + 1))"
    using log_less_iff [of 2 "\<bar>x\<bar>" "of_int (\<lfloor>log 2 \<bar>x\<bar>\<rfloor> + 1)"] x by fastforce
  then show "\<bar>x\<bar> < pow2 (\<lfloor>log 2 \<bar>x\<bar>\<rfloor> + 1)"
    by (simp only: pow2_powr)
qed

lemma round_even_error: "\<bar>of_int (round_even y) - y\<bar> \<le> 1 / 2"
  unfolding round_even_def Let_def
  by (auto simp: abs_if) linarith+

lemma round_even_of_int [simp]: "round_even (of_int n) = n"
  by (simp add: round_even_def)

lemma round_even_nonneg: "0 \<le> y \<Longrightarrow> 0 \<le> round_even y"
  unfolding round_even_def Let_def by auto

lemma round_even_mono: "x \<le> y \<Longrightarrow> round_even x \<le> round_even y"
proof -
  assume xy: "x \<le> y"
  have fl: "\<lfloor>x\<rfloor> \<le> \<lfloor>y\<rfloor>" using xy by (rule floor_mono)
  show ?thesis
  proof (cases "\<lfloor>x\<rfloor> = \<lfloor>y\<rfloor>")
    case True
    then show ?thesis using xy unfolding round_even_def Let_def by auto
  next
    case False
    then have "\<lfloor>x\<rfloor> + 1 \<le> \<lfloor>y\<rfloor>" using fl by simp
    moreover have "round_even x \<le> \<lfloor>x\<rfloor> + 1" unfolding round_even_def Let_def by auto
    moreover have "\<lfloor>y\<rfloor> \<le> round_even y" unfolding round_even_def Let_def by auto
    ultimately show ?thesis by linarith
  qed
qed


lemma round_even_zero [simp]: "round_even 0 = 0"
  using round_even_of_int [of 0] by simp

lemma float_round_zero [simp]: "float_round p emin 0 = 0"
  by (simp add: float_round_def)

lemma float_round_normal:
  assumes "emin \<le> e" "pow2 e \<le> \<bar>x\<bar>" "\<bar>x\<bar> < pow2 (e + 1)"
  shows "float_round p emin x
     = pow2 (e - int p + 1) * of_int (round_even (x / pow2 (e - int p + 1)))"
proof -
  have "x \<noteq> 0" using assms(2) pow2_pos [of e] by auto
  moreover have "\<lfloor>log 2 \<bar>x\<bar>\<rfloor> = e" by (rule floor_log2_eq [OF assms(2) assms(3)])
  ultimately show ?thesis using assms(1) by (simp add: float_round_def Let_def max_def)
qed

lemma float_round_subnormal:
  assumes "\<bar>x\<bar> < pow2 emin"
  shows "float_round p emin x
     = pow2 (emin - int p + 1) * of_int (round_even (x / pow2 (emin - int p + 1)))"
proof (cases "x = 0")
  case True
  then show ?thesis by simp
next
  case False
  have "\<lfloor>log 2 \<bar>x\<bar>\<rfloor> < emin"
  proof (rule ccontr)
    assume "\<not> \<lfloor>log 2 \<bar>x\<bar>\<rfloor> < emin"
    then have "pow2 emin \<le> pow2 \<lfloor>log 2 \<bar>x\<bar>\<rfloor>" by (simp add: pow2_mono)
    with floor_log2_bounds(1) [OF False] assms show False by linarith
  qed
  then show ?thesis using False by (simp add: float_round_def Let_def max_def)
qed

lemma float_round_exact:
  assumes x: "x = of_int n * pow2 k" and n: "\<bar>n\<bar> < 2 ^ p" and k: "emin - int p + 1 \<le> k"
  shows "float_round p emin x = x"
proof (cases "x = 0")
  case True
  then show ?thesis by simp
next
  case False
  define e where "e = max emin \<lfloor>log 2 \<bar>x\<bar>\<rfloor>"
  have "\<bar>x\<bar> = of_int \<bar>n\<bar> * pow2 k" by (simp add: x abs_mult)
  also have "\<dots> < 2 ^ p * pow2 k"
  proof -
    have "real_of_int \<bar>n\<bar> < real_of_int (2 ^ p)" using n by (simp only: of_int_less_iff)
    then show ?thesis by simp
  qed
  also have "\<dots> = pow2 (int p + k)" by (simp add: pow2_add pow2_nat)
  finally have ub: "\<bar>x\<bar> < pow2 (int p + k)" .
  have "\<lfloor>log 2 \<bar>x\<bar>\<rfloor> < int p + k"
  proof (rule ccontr)
    assume "\<not> \<lfloor>log 2 \<bar>x\<bar>\<rfloor> < int p + k"
    then have "pow2 (int p + k) \<le> pow2 \<lfloor>log 2 \<bar>x\<bar>\<rfloor>" by (simp add: pow2_mono)
    with floor_log2_bounds(1) [OF False] ub show False by linarith
  qed
  then have le: "e - int p + 1 \<le> k" using k by (simp add: e_def)
  define d where "d = nat (k - (e - int p + 1))"
  have kd: "k = (e - int p + 1) + int d" using le by (simp add: d_def)
  have "x / pow2 (e - int p + 1) = of_int n * 2 ^ d"
    unfolding x kd by (simp add: pow2_add pow2_nat)
  also have "\<dots> = of_int (n * 2 ^ d)" by simp
  finally have q: "x / pow2 (e - int p + 1) = of_int (n * 2 ^ d)" .
  have "float_round p emin x = pow2 (e - int p + 1) * of_int (round_even (x / pow2 (e - int p + 1)))"
    using False by (simp add: float_round_def Let_def e_def)
  also have "\<dots> = pow2 (e - int p + 1) * (x / pow2 (e - int p + 1))"
    unfolding q round_even_of_int by (rule refl)
  also have "\<dots> = x" by simp
  finally show ?thesis .
qed

lemma float_round_half_ulp:
  assumes "x \<noteq> 0"
  shows "\<bar>float_round p emin x - x\<bar> \<le> pow2 (max emin \<lfloor>log 2 \<bar>x\<bar>\<rfloor> - int p)"
proof -
  define e where "e = max emin \<lfloor>log 2 \<bar>x\<bar>\<rfloor>"
  define u where "u = pow2 (e - int p + 1)"
  have u: "0 < u" by (simp add: u_def)
  have "float_round p emin x - x = u * (of_int (round_even (x / u)) - x / u)"
    using assms u by (simp add: float_round_def Let_def e_def u_def algebra_simps)
  then have "\<bar>float_round p emin x - x\<bar> = u * \<bar>of_int (round_even (x / u)) - x / u\<bar>"
    using u by (simp add: abs_mult)
  also have "\<dots> \<le> u * (1 / 2)"
    using u round_even_error [of "x / u"] by (intro mult_left_mono) simp_all
  also have "\<dots> = pow2 (e - int p)"
    using pow2_add [of "e - int p" 1] by (simp add: u_def pow2_def)
  finally show ?thesis by (simp add: e_def)
qed

lemma float_round_error:
  "\<bar>float_round p emin x - x\<bar> \<le> pow2 (- int p) * \<bar>x\<bar> + pow2 (emin - int p)"
proof (cases "x = 0")
  case True
  then show ?thesis using pow2_pos [of "emin - int p"] by simp
next
  case False
  define l where "l = \<lfloor>log 2 \<bar>x\<bar>\<rfloor>"
  have h: "\<bar>float_round p emin x - x\<bar> \<le> pow2 (max emin l - int p)"
    unfolding l_def by (rule float_round_half_ulp [OF False])
  have a: "pow2 (l - int p) \<le> pow2 (- int p) * \<bar>x\<bar>"
  proof -
    have "pow2 (l - int p) = pow2 (- int p) * pow2 l"
      using pow2_add [of "- int p" l] by (simp add: algebra_simps)
    also have "\<dots> \<le> pow2 (- int p) * \<bar>x\<bar>"
      using floor_log2_bounds(1) [OF False] by (intro mult_left_mono) (simp_all add: l_def)
    finally show ?thesis .
  qed
  have "pow2 (max emin l - int p) \<le> pow2 (- int p) * \<bar>x\<bar> + pow2 (emin - int p)"
  proof (cases "emin \<le> l")
    case True
    have "0 \<le> pow2 (emin - int p)" by simp
    with a have "pow2 (l - int p) \<le> pow2 (- int p) * \<bar>x\<bar> + pow2 (emin - int p)" by linarith
    with True show ?thesis by (simp add: max_def)
  next
    case False
    have "0 \<le> pow2 (- int p) * \<bar>x\<bar>" by simp
    with False show ?thesis by (simp add: max_def)
  qed
  with h show ?thesis by linarith
qed

lemma float_round_error_normal:
  assumes "pow2 emin \<le> \<bar>x\<bar>"
  shows "\<bar>float_round p emin x - x\<bar> \<le> pow2 (- int p) * \<bar>x\<bar>"
proof -
  have nz: "x \<noteq> 0" using assms pow2_pos [of emin] by auto
  define l where "l = \<lfloor>log 2 \<bar>x\<bar>\<rfloor>"
  have "emin \<le> l"
  proof (rule ccontr)
    assume "\<not> emin \<le> l"
    then have "l + 1 \<le> emin" by simp
    then have "pow2 (l + 1) \<le> pow2 emin" by (rule pow2_mono)
    with floor_log2_bounds(2) [OF nz] assms show False by (simp add: l_def)
  qed
  then have "\<bar>float_round p emin x - x\<bar> \<le> pow2 (l - int p)"
    using float_round_half_ulp [OF nz, of p emin] by (simp add: l_def max_def)
  also have "pow2 (l - int p) = pow2 (- int p) * pow2 l"
    using pow2_add [of "- int p" l] by (simp add: algebra_simps)
  also have "\<dots> \<le> pow2 (- int p) * \<bar>x\<bar>"
    using floor_log2_bounds(1) [OF nz] by (intro mult_left_mono) (simp_all add: l_def)
  finally show ?thesis .
qed

lemma float_round_nonneg: "0 \<le> x \<Longrightarrow> 0 \<le> float_round p emin x"
  by (simp add: float_round_def Let_def round_even_nonneg)

lemma round_even_small: "\<bar>y\<bar> < 1 / 2 \<Longrightarrow> round_even y = 0"
proof -
  assume a: "\<bar>y\<bar> < 1 / 2"
  show ?thesis
  proof (cases "0 \<le> y")
    case True
    then have "\<lfloor>y\<rfloor> = 0" using a by (simp add: floor_eq_iff)
    then show ?thesis using a True by (simp add: round_even_def)
  next
    case False
    then have "\<lfloor>y\<rfloor> = - 1" using a by (simp add: floor_eq_iff)
    then show ?thesis using a False by (simp add: round_even_def)
  qed
qed

lemma round_float_zero [simp]: "round_float 0 = 0"
  by (simp add: round_float_def)

lemma round_float_exact:
  assumes "x = of_int n * pow2 k" "\<bar>n\<bar> < 2 ^ 24" "- 149 \<le> k"
  shows "round_float x = x"
  unfolding round_float_def using assms by (intro float_round_exact [of x n k]) simp_all

lemma round_float_one [simp]: "round_float 1 = 1"
  by (rule round_float_exact [of 1 1 0]) simp_all

lemma round_float_error: "\<bar>round_float x - x\<bar> \<le> \<bar>x\<bar> / 2 ^ 24 + 1 / 2 ^ 150"
  using float_round_error [of 24 "- 126" x] by (simp add: round_float_def pow2_def)

lemma round_float_error_normal:
  "1 / 2 ^ 126 \<le> \<bar>x\<bar> \<Longrightarrow> \<bar>round_float x - x\<bar> \<le> \<bar>x\<bar> / 2 ^ 24"
  using float_round_error_normal [of "- 126" x 24] by (simp add: round_float_def pow2_def)

lemma round_float_nonneg: "0 \<le> x \<Longrightarrow> 0 \<le> round_float x"
  unfolding round_float_def by (rule float_round_nonneg)

lemma round_float_tiny:
  assumes "\<bar>x\<bar> \<le> 1 / 2 ^ 151"
  shows "round_float x = 0"
proof -
  have lt: "\<bar>x\<bar> < pow2 (- 126)"
  proof -
    have "(1::real) / 2 ^ 151 < 1 / 2 ^ 126" by simp
    with assms show ?thesis by (simp add: pow2_def)
  qed
  have "\<bar>x / pow2 (- 149)\<bar> = \<bar>x\<bar> * 2 ^ 149" by (simp add: pow2_def abs_mult)
  also have "\<dots> \<le> 1 / 2 ^ 151 * 2 ^ 149" using assms by (intro mult_right_mono) simp_all
  also have "\<dots> < 1 / 2" by simp
  finally have "round_even (x / pow2 (- 149)) = 0" by (rule round_even_small)
  then show ?thesis
    unfolding round_float_def using float_round_subnormal [OF lt, of 24] by simp
qed

lemma round_float_upper: "0 \<le> x \<Longrightarrow> round_float x \<le> 2 * x + 1 / 2 ^ 150"
proof -
  assume x: "0 \<le> x"
  have "x / 2 ^ 24 \<le> x" using x by (simp add: field_simps)
  with round_float_error [of x] x show ?thesis by simp
qed

lemma round_float_lower: "1 / 2 ^ 148 \<le> x \<Longrightarrow> x / 2 \<le> round_float x"
proof -
  assume a: "1 / 2 ^ 148 \<le> x"
  have p: "0 < x"
  proof -
    have "(0::real) < 1 / 2 ^ 148" by simp
    with a show ?thesis by linarith
  qed
  have "x / 2 ^ 24 \<le> x / 4" using p by (simp add: field_simps)
  moreover have "1 / 2 ^ 150 \<le> x / 4"
  proof -
    have "(1::real) / 2 ^ 150 = (1 / 2 ^ 148) / 4" by simp
    also have "\<dots> \<le> x / 4" using a by (rule divide_right_mono) simp
    finally show ?thesis .
  qed
  ultimately show ?thesis using round_float_error [of x] p by simp
qed

lemma round_float_nonzero:
  assumes "1 / 2 ^ 148 \<le> \<bar>x\<bar>"
  shows "round_float x \<noteq> 0"
proof
  assume z: "round_float x = 0"
  have p: "0 < \<bar>x\<bar>"
  proof -
    have "(0::real) < 1 / 2 ^ 148" by simp
    with assms show ?thesis by linarith
  qed
  have "\<bar>x\<bar> / 2 ^ 24 \<le> \<bar>x\<bar> / 4" using p by (simp add: field_simps)
  moreover have "1 / 2 ^ 150 \<le> \<bar>x\<bar> / 4"
  proof -
    have "(1::real) / 2 ^ 150 = (1 / 2 ^ 148) / 4" by simp
    also have "\<dots> \<le> \<bar>x\<bar> / 4" using assms by (rule divide_right_mono) simp
    finally show ?thesis .
  qed
  ultimately show False using round_float_error [of x] p z by simp
qed

lemma inverse_mass_tolerance:
  assumes "1 / 2 ^ 126 \<le> \<bar>m\<bar>" "\<bar>m\<bar> \<le> 2 ^ 126"
  shows "\<bar>round_float (1 / m) * m - 1\<bar> \<le> 1 / 2 ^ 24"
proof -
  have p: "0 < \<bar>m\<bar>"
  proof -
    have "(0::real) < 1 / 2 ^ 126" by simp
    with assms(1) show ?thesis by linarith
  qed
  then have nz: "m \<noteq> 0" by simp
  have "1 / 2 ^ 126 \<le> 1 / \<bar>m\<bar>"
    using assms(2) p by (intro divide_left_mono) simp_all
  then have n: "1 / 2 ^ 126 \<le> \<bar>1 / m\<bar>" by (simp add: abs_divide)
  have e: "\<bar>round_float (1 / m) - 1 / m\<bar> \<le> \<bar>1 / m\<bar> / 2 ^ 24"
    by (rule round_float_error_normal [OF n])
  have "round_float (1 / m) * m - 1 = (round_float (1 / m) - 1 / m) * m"
    using nz by (simp add: algebra_simps)
  then have "\<bar>round_float (1 / m) * m - 1\<bar> = \<bar>round_float (1 / m) - 1 / m\<bar> * \<bar>m\<bar>"
    by (simp add: abs_mult)
  also have "\<dots> \<le> \<bar>1 / m\<bar> / 2 ^ 24 * \<bar>m\<bar>"
    using e by (intro mult_right_mono) simp_all
  also have "\<dots> = 1 / 2 ^ 24" using nz by (simp add: abs_divide)
  finally show ?thesis .
qed

lemma dot_float_zero [simp]: "dot_float 0 = 0"
  by (simp add: dot_float_def zero_vec3_def)

lemma dot_float_minus: "dot_float (a - b) = dot_float (b - a)"
proof -
  have "(x - y) * (x - y) = (y - x) * (y - x)" for x y :: real by (simp add: algebra_simps)
  then show ?thesis by (simp add: dot_float_def minus_vec3_def)
qed

lemma square_bounds:
  fixes c :: real
  shows "\<bar>c\<bar> \<le> 2 ^ 60 \<Longrightarrow> c * c \<le> 2 ^ 120"
    and "1 / 2 ^ 60 \<le> \<bar>c\<bar> \<Longrightarrow> 1 / 2 ^ 120 \<le> c * c"
    and "\<bar>c\<bar> \<le> 1 / 2 ^ 76 \<Longrightarrow> \<bar>c * c\<bar> \<le> 1 / 2 ^ 151"
proof -
  have sq: "c * c = \<bar>c\<bar> * \<bar>c\<bar>" by simp
  show "c * c \<le> 2 ^ 120" if "\<bar>c\<bar> \<le> 2 ^ 60"
  proof -
    have "\<bar>c\<bar> * \<bar>c\<bar> \<le> 2 ^ 60 * 2 ^ 60" using that by (intro mult_mono) simp_all
    then show ?thesis unfolding sq by simp
  qed
  show "1 / 2 ^ 120 \<le> c * c" if "1 / 2 ^ 60 \<le> \<bar>c\<bar>"
  proof -
    have "(1 / 2 ^ 60) * (1 / 2 ^ 60) \<le> \<bar>c\<bar> * \<bar>c\<bar>" using that by (intro mult_mono) simp_all
    then show ?thesis unfolding sq by simp
  qed
  show "\<bar>c * c\<bar> \<le> 1 / 2 ^ 151" if "\<bar>c\<bar> \<le> 1 / 2 ^ 76"
  proof -
    have "\<bar>c\<bar> * \<bar>c\<bar> \<le> (1 / 2 ^ 76) * (1 / 2 ^ 76)" using that by (intro mult_mono) simp_all
    also have "\<dots> \<le> 1 / 2 ^ 151" by simp
    finally show ?thesis by (simp add: abs_mult)
  qed
qed

lemma dot_float_tiny:
  assumes "\<bar>vx v\<bar> \<le> 1 / 2 ^ 76" "\<bar>vy v\<bar> \<le> 1 / 2 ^ 76" "\<bar>vz v\<bar> \<le> 1 / 2 ^ 76"
  shows "dot_float v = 0"
  unfolding dot_float_def
  by (simp add: round_float_tiny [OF square_bounds(3) [OF assms(1)]]
      round_float_tiny [OF square_bounds(3) [OF assms(2)]]
      round_float_tiny [OF square_bounds(3) [OF assms(3)]])

lemma dot_float_in_range:
  assumes "in_float_range v"
  shows "0 < dot_float v" and "dot_float v < 2 ^ 128"
proof -
  define a where "a = vx v * vx v"
  define b where "b = vy v * vy v"
  define c where "c = vz v * vz v"
  define ra where "ra = round_float a"
  define rb where "rb = round_float b"
  define rc where "rc = round_float c"
  define s where "s = round_float (ra + rb)"
  have d: "dot_float v = round_float (s + rc)"
    by (simp add: dot_float_def s_def ra_def rb_def rc_def a_def b_def c_def)
  have nn: "0 \<le> a" "0 \<le> b" "0 \<le> c" by (simp_all add: a_def b_def c_def)
  have ub: "a \<le> 2 ^ 120" "b \<le> 2 ^ 120" "c \<le> 2 ^ 120"
    using assms square_bounds(1) by (simp_all add: in_float_range_def a_def b_def c_def)
  have rnn: "0 \<le> ra" "0 \<le> rb" "0 \<le> rc"
    using nn by (simp_all add: ra_def rb_def rc_def round_float_nonneg)
  define e where "e = (1::real) / 2 ^ 150"
  have rub: "ra \<le> 2 * a + e" "rb \<le> 2 * b + e" "rc \<le> 2 * c + e"
    unfolding ra_def rb_def rc_def e_def
    by (rule round_float_upper [OF nn(1)], rule round_float_upper [OF nn(2)],
        rule round_float_upper [OF nn(3)])
  have snn: "0 \<le> s" using rnn by (simp add: s_def round_float_nonneg)
  have sub: "s \<le> 2 * ra + 2 * rb + e"
    unfolding s_def e_def using round_float_upper [of "ra + rb"] rnn by simp
  have "dot_float v \<le> 2 * s + 2 * rc + e"
    unfolding d e_def using round_float_upper [of "s + rc"] snn rnn by simp
  also have "\<dots> \<le> 8 * a + 8 * b + 4 * c + 13 * e"
    using sub rub by linarith
  also have "\<dots> \<le> 8 * 2 ^ 120 + 8 * 2 ^ 120 + 4 * 2 ^ 120 + 13 * e"
    using ub by linarith
  also have "\<dots> < 2 ^ 128" by (simp add: e_def)
  finally show "dot_float v < 2 ^ 128" .
  define t where "t = (1::real) / 2 ^ 120"
  have tpos: "0 < t" by (simp add: t_def)
  have big: "t \<le> a \<or> t \<le> b \<or> t \<le> c"
    using assms square_bounds(2) by (auto simp: in_float_range_def a_def b_def c_def t_def)
  have low: "x / 2 \<le> round_float x" if "t / 16 \<le> x" for x
  proof -
    have "(1::real) / 2 ^ 148 \<le> t / 16" by (simp add: t_def)
    with that have "1 / 2 ^ 148 \<le> x" by linarith
    then show ?thesis by (rule round_float_lower)
  qed
  have sum_low: "t / 2 \<le> ra + rb + rc"
  proof -
    from big consider "t \<le> a" | "t \<le> b" | "t \<le> c" by blast
    then show ?thesis
    proof cases
      case 1
      then have "a / 2 \<le> ra" unfolding ra_def using tpos by (intro low) linarith
      with 1 rnn tpos show ?thesis by linarith
    next
      case 2
      then have "b / 2 \<le> rb" unfolding rb_def using tpos by (intro low) linarith
      with 2 rnn tpos show ?thesis by linarith
    next
      case 3
      then have "c / 2 \<le> rc" unfolding rc_def using tpos by (intro low) linarith
      with 3 rnn tpos show ?thesis by linarith
    qed
  qed
  have s_low: "t / 8 \<le> s + rc"
  proof (cases "t / 4 \<le> ra + rb")
    case True
    then have "(ra + rb) / 2 \<le> s" unfolding s_def using tpos by (intro low) linarith
    then have "ra / 2 + rb / 2 \<le> s" by (simp add: add_divide_distrib)
    with True rnn tpos show ?thesis by linarith
  next
    case False
    with sum_low snn tpos show ?thesis by linarith
  qed
  then have "(s + rc) / 2 \<le> dot_float v" unfolding d using tpos by (intro low) linarith
  then have "s / 2 + rc / 2 \<le> dot_float v" by (simp add: add_divide_distrib)
  with s_low tpos show "0 < dot_float v" by linarith
qed

lemma normalize_None_iff: "normalize v = None \<longleftrightarrow> dot_float v = 0 \<or> 2 ^ 128 \<le> dot_float v"
  by (simp add: normalize_def)

lemma normalize_zero [simp]: "normalize 0 = None"
  by (simp add: normalize_def)

lemma normalize_minus: "normalize (a - b) = None \<longleftrightarrow> normalize (b - a) = None"
  by (simp add: normalize_None_iff dot_float_minus [of a b])

lemma normalize_in_range: "in_float_range v \<Longrightarrow> normalize v = Some (smul (1 / vlength v) v)"
  using dot_float_in_range [of v] by (simp add: normalize_def)

lemma normalize_tiny:
  "\<bar>vx v\<bar> \<le> 1 / 2 ^ 76 \<Longrightarrow> \<bar>vy v\<bar> \<le> 1 / 2 ^ 76 \<Longrightarrow> \<bar>vz v\<bar> \<le> 1 / 2 ^ 76 \<Longrightarrow> normalize v = None"
  by (simp add: normalize_def dot_float_tiny)

lemma normalize_Some: "normalize v \<noteq> None \<Longrightarrow> normalize v = Some (smul (1 / vlength v) v)"
  by (simp add: normalize_def split: if_splits)

lemma smul_zero_right: "smul s 0 = 0"
  by (simp add: smul_def zero_vec3_def)

lemma smul_zero_left: "smul 0 v = 0"
  by (simp add: smul_def zero_vec3_def)

lemma for_each_append:
  "for_each (xs @ ys) f s = (case for_each xs f s of None \<Rightarrow> None | Some s' \<Rightarrow> for_each ys f s')"
  by (induction xs arbitrary: s) (auto split: option.splits)

lemma nth_list_update_any:
  "(xs[i := x]) ! j = (if i = j \<and> i < length xs then x else xs ! j)"
  by (cases "i < length xs") (simp_all add: nth_list_update list_update_beyond)

lemma upd_body_fields [simp]:
  "subdivisionsX (upd_body g i j h) = subdivisionsX g"
  "subdivisionsY (upd_body g i j h) = subdivisionsY g"
  "restHeight (upd_body g i j h) = restHeight g"
  "restWidth (upd_body g i j h) = restWidth g"
  "numRigidBodies (upd_body g i j h) = numRigidBodies g"
  "coefficient (upd_body g i j h) = coefficient g"
  "dampening (upd_body g i j h) = dampening g"
  by (simp_all add: upd_body_def)

lemma length_upd_body [simp]: "length (bodies (upd_body g i j h)) = length (bodies g)"
  by (simp add: upd_body_def)

lemma length_row_upd_body [simp]:
  "length (bodies (upd_body g i j h) ! a) = length (bodies g ! a)"
  by (simp add: upd_body_def nth_list_update_any)

lemma nth_upd_body:
  "bodies (upd_body g i j h) ! a ! b =
     (if a = i \<and> b = j \<and> i < length (bodies g) \<and> j < length (bodies g ! i)
      then h (bodies g ! i ! j) else bodies g ! a ! b)"
  by (simp add: upd_body_def nth_list_update_any)

lemma touched_none: "touched (\<lambda>_ _. False) H g g"
  by (simp add: touched_def scalars_eq_def)

lemma touched_cong:
  assumes "touched P H g0 g"
    and "\<And>i j. i < length (bodies g0) \<Longrightarrow> j < length (bodies g0 ! i) \<Longrightarrow> P i j = Q i j"
  shows "touched Q H g0 g"
  using assms by (simp add: touched_def)

lemma touched_upd:
  assumes "touched P H g0 g" "i < length (bodies g0)" "j < length (bodies g0 ! i)" "\<not> P i j"
    and "h (bodies g0 ! i ! j) = H i j (bodies g0 ! i ! j)"
  shows "touched (\<lambda>a b. P a b \<or> (a = i \<and> b = j)) H g0 (upd_body g i j h)"
  using assms by (auto simp: touched_def scalars_eq_def nth_upd_body)

lemma add_netForce_fields [simp]:
  "subdivisionsX (add_netForce g i j f) = subdivisionsX g"
  "subdivisionsY (add_netForce g i j f) = subdivisionsY g"
  "restHeight (add_netForce g i j f) = restHeight g"
  "restWidth (add_netForce g i j f) = restWidth g"
  "coefficient (add_netForce g i j f) = coefficient g"
  "dampening (add_netForce g i j f) = dampening g"
  by (simp_all add: add_netForce_def)

lemma add_netForce_kin [simp]:
  "position (bodies (add_netForce g i j f) ! a ! b) = position (bodies g ! a ! b)"
  "velocity (bodies (add_netForce g i j f) ! a ! b) = velocity (bodies g ! a ! b)"
  by (simp_all add: add_netForce_def nth_upd_body)

lemma spring_force_add_netForce [simp]:
  "spring_force (add_netForce g i j f) a b na nb rest = spring_force g a b na nb rest"
  by (simp add: spring_force_def Let_def cong: option.case_cong)

lemma add_netForce_zero [simp]: "add_netForce g i j 0 = g"
  by (simp add: add_netForce_def upd_body_def)

lemma add_netForce_twice [simp]:
  "add_netForce (add_netForce g i j f) i j f' = add_netForce g i j (f + f')"
  by (cases "i < length (bodies g)"; cases "j < length (bodies g ! i)")
     (simp_all add: add_netForce_def upd_body_def list_update_beyond add.assoc)

lemma add_netForce_twice_fun:
  "add_netForce (add_netForce g i j f) i j = (\<lambda>f'. add_netForce g i j (f + f'))"
  by (rule ext) simp

lemma map_option_as_bind: "map_option h x = x \<bind> (\<lambda>a. Some (h a))"
  by (cases x) simp_all

lemma node_forces_eq:
  "node_forces ext i j g = map_option (add_netForce g i j) (node_total ext g i j)"
  unfolding node_forces_def node_total_def
  by (cases "0 < i"; cases "int i < subdivisionsY g - 1"; cases "0 < j";
      cases "int j < subdivisionsX g - 1")
    (simp_all add: apply_spring_def map_option_as_bind add.assoc)

lemma touched_scalars:
  "touched P H g0 g \<Longrightarrow> subdivisionsX g = subdivisionsX g0 \<and> subdivisionsY g = subdivisionsY g0
     \<and> restHeight g = restHeight g0 \<and> restWidth g = restWidth g0
     \<and> coefficient g = coefficient g0 \<and> dampening g = dampening g0
     \<and> numRigidBodies g = numRigidBodies g0"
  by (simp add: touched_def scalars_eq_def)

lemma touched_with_force_kin:
  assumes "touched P (with_force ext g0) g0 g" "a < length (bodies g0)" "b < length (bodies g0 ! a)"
  shows "position (bodies g ! a ! b) = position (bodies g0 ! a ! b)"
    and "velocity (bodies g ! a ! b) = velocity (bodies g0 ! a ! b)"
  using assms by (auto simp: touched_def with_force_def)

lemma spring_force_touched:
  assumes "touched P (with_force ext g0) g0 g"
    and "i < length (bodies g0)" "j < length (bodies g0 ! i)"
    and "ni < length (bodies g0)" "nj < length (bodies g0 ! ni)"
  shows "spring_force g i j ni nj r = spring_force g0 i j ni nj r"
  using touched_with_force_kin [OF assms(1) assms(2) assms(3)]
    touched_with_force_kin [OF assms(1) assms(4) assms(5)] touched_scalars [OF assms(1)]
  by (simp add: spring_force_def Let_def cong: option.case_cong)

lemma node_total_touched:
  assumes t: "touched P (with_force ext g0) g0 g" and ok: "grid_ok g0"
    and i: "i < nat (subdivisionsY g0)" and j: "j < nat (subdivisionsX g0)"
  shows "node_total ext' g i j = node_total ext' g0 i j"
proof -
  have len: "length (bodies g0) = nat (subdivisionsY g0)"
    and row: "\<And>a. a < nat (subdivisionsY g0) \<Longrightarrow> length (bodies g0 ! a) = nat (subdivisionsX g0)"
    using ok by (simp_all add: grid_ok_def)
  have ij: "i < length (bodies g0)" "j < length (bodies g0 ! i)"
    using i j len row by simp_all
  have up: "0 < i \<Longrightarrow> spring_force g i j (i - 1) j r = spring_force g0 i j (i - 1) j r" for r
    using i j len row by (intro spring_force_touched [OF t ij]) simp_all
  have down: "int i < subdivisionsY g0 - 1 \<Longrightarrow>
      spring_force g i j (i + 1) j r = spring_force g0 i j (i + 1) j r" for r
    using i j len row by (intro spring_force_touched [OF t ij]) simp_all
  have left: "0 < j \<Longrightarrow> spring_force g i j i (j - 1) r = spring_force g0 i j i (j - 1) r" for r
    using i j len row by (intro spring_force_touched [OF t ij]) simp_all
  have right: "int j < subdivisionsX g0 - 1 \<Longrightarrow>
      spring_force g i j i (j + 1) r = spring_force g0 i j i (j + 1) r" for r
    using i j len row by (intro spring_force_touched [OF t ij]) simp_all
  show ?thesis
    using up down left right touched_scalars [OF t]
    by (simp add: node_total_def cong: if_cong)
qed

lemma node_forces_touched:
  assumes t: "touched P (with_force ext g0) g0 g" and ok: "grid_ok g0"
    and i: "i < nat (subdivisionsY g0)" and j: "j < nat (subdivisionsX g0)" and n: "\<not> P i j"
  shows "node_total ext g0 i j = None \<Longrightarrow> node_forces ext i j g = None"
    and "node_total ext g0 i j \<noteq> None \<Longrightarrow>
         \<exists>g'. node_forces ext i j g = Some g'
           \<and> touched (\<lambda>a b. P a b \<or> (a = i \<and> b = j)) (with_force ext g0) g0 g'"
proof -
  have eq: "node_total ext g i j = node_total ext g0 i j"
    by (rule node_total_touched [OF t ok i j])
  show "node_total ext g0 i j = None \<Longrightarrow> node_forces ext i j g = None"
    by (simp add: node_forces_eq eq)
  assume "node_total ext g0 i j \<noteq> None"
  then obtain f where f: "node_total ext g0 i j = Some f" by auto
  have ij: "i < length (bodies g0)" "j < length (bodies g0 ! i)"
    using i j ok by (simp_all add: grid_ok_def)
  have "touched (\<lambda>a b. P a b \<or> (a = i \<and> b = j)) (with_force ext g0) g0
          (upd_body g i j (\<lambda>b. b\<lparr>netForce := netForce b + f\<rparr>))"
    by (rule touched_upd [OF t ij n]) (simp add: with_force_def f)
  then show "\<exists>g'. node_forces ext i j g = Some g'
           \<and> touched (\<lambda>a b. P a b \<or> (a = i \<and> b = j)) (with_force ext g0) g0 g'"
    by (simp add: node_forces_eq eq f add_netForce_def)
qed

lemma row_forces:
  assumes ok: "grid_ok g0" and i: "i < nat (subdivisionsY g0)"
    and t: "touched (\<lambda>a b. a < i) (with_force ext g0) g0 g"
  shows "n \<le> nat (subdivisionsX g0) \<Longrightarrow>
     (if \<forall>j < n. node_total ext g0 i j \<noteq> None
      then \<exists>g'. for_each [0..<n] (\<lambda>j. node_forces ext i j) g = Some g'
             \<and> touched (\<lambda>a b. a < i \<or> (a = i \<and> b < n)) (with_force ext g0) g0 g'
      else for_each [0..<n] (\<lambda>j. node_forces ext i j) g = None)"
proof (induction n)
  case 0
  show ?case using t by simp
next
  case (Suc n)
  then have n: "n < nat (subdivisionsX g0)" and le: "n \<le> nat (subdivisionsX g0)" by simp_all
  note IH = Suc.IH [OF le]
  show ?case
  proof (cases "\<forall>j < n. node_total ext g0 i j \<noteq> None")
    case False
    then have "for_each [0..<n] (\<lambda>j. node_forces ext i j) g = None"
      using IH by simp
    moreover have "\<not> (\<forall>j < Suc n. node_total ext g0 i j \<noteq> None)"
      using False less_Suc_eq by blast
    ultimately show ?thesis by (simp add: for_each_append)
  next
    case True
    then obtain g1 where g1: "for_each [0..<n] (\<lambda>j. node_forces ext i j) g = Some g1"
      and t1: "touched (\<lambda>a b. a < i \<or> (a = i \<and> b < n)) (with_force ext g0) g0 g1"
      using IH by auto
    have notP: "\<not> (i < i \<or> (i = i \<and> n < n))" by simp
    show ?thesis
    proof (cases "node_total ext g0 i n")
      case None
      then have "node_forces ext i n g1 = None"
        using node_forces_touched(1) [OF t1 ok i n notP] by simp
      moreover have "\<not> (\<forall>j < Suc n. node_total ext g0 i j \<noteq> None)"
        using None by blast
      ultimately show ?thesis by (simp add: for_each_append g1)
    next
      case (Some f)
      then obtain g2 where g2: "node_forces ext i n g1 = Some g2"
        and t2: "touched (\<lambda>a b. (a < i \<or> (a = i \<and> b < n)) \<or> (a = i \<and> b = n))
                   (with_force ext g0) g0 g2"
        using node_forces_touched(2) [OF t1 ok i n notP] by auto
      have t3: "touched (\<lambda>a b. a < i \<or> (a = i \<and> b < Suc n)) (with_force ext g0) g0 g2"
        by (rule touched_cong [OF t2]) auto
      have "\<forall>j < Suc n. node_total ext g0 i j \<noteq> None"
        using True Some less_Suc_eq by auto
      then show ?thesis by (simp add: for_each_append g1 g2 t3)
    qed
  qed
qed

lemma all_forces:
  assumes ok: "grid_ok g0"
  shows "m \<le> nat (subdivisionsY g0) \<Longrightarrow>
     (if \<forall>i < m. \<forall>j < nat (subdivisionsX g0). node_total ext g0 i j \<noteq> None
      then \<exists>g'. for_each [0..<m]
                  (\<lambda>i gi. for_each [0..<nat (subdivisionsX gi)] (\<lambda>j. node_forces ext i j) gi) g0
                = Some g'
             \<and> touched (\<lambda>a b. a < m) (with_force ext g0) g0 g'
      else for_each [0..<m]
             (\<lambda>i gi. for_each [0..<nat (subdivisionsX gi)] (\<lambda>j. node_forces ext i j) gi) g0 = None)"
proof (induction m)
  case 0
  show ?case by (simp add: touched_none)
next
  case (Suc m)
  then have m: "m < nat (subdivisionsY g0)" and le: "m \<le> nat (subdivisionsY g0)" by simp_all
  note IH = Suc.IH [OF le]
  let ?row = "\<lambda>i gi. for_each [0..<nat (subdivisionsX gi)] (\<lambda>j. node_forces ext i j) gi"
  show ?case
  proof (cases "\<forall>i < m. \<forall>j < nat (subdivisionsX g0). node_total ext g0 i j \<noteq> None")
    case False
    then have "for_each [0..<m] ?row g0 = None"
      using IH by simp
    moreover have "\<not> (\<forall>i < Suc m. \<forall>j < nat (subdivisionsX g0). node_total ext g0 i j \<noteq> None)"
      using False less_Suc_eq by blast
    ultimately show ?thesis by (simp add: for_each_append)
  next
    case True
    then obtain g1 where g1: "for_each [0..<m] ?row g0 = Some g1"
      and t1: "touched (\<lambda>a b. a < m) (with_force ext g0) g0 g1"
      using IH by auto
    have sx: "subdivisionsX g1 = subdivisionsX g0"
      using touched_scalars [OF t1] by simp
    note R = row_forces [OF ok m t1, of "nat (subdivisionsX g0)", simplified]
    show ?thesis
    proof (cases "\<forall>j < nat (subdivisionsX g0). node_total ext g0 m j \<noteq> None")
      case False
      then have "?row m g1 = None" using R by (simp add: sx)
      moreover have "\<not> (\<forall>i < Suc m. \<forall>j < nat (subdivisionsX g0). node_total ext g0 i j \<noteq> None)"
        using False by blast
      ultimately show ?thesis by (simp add: for_each_append g1)
    next
      case row: True
      then obtain g2 where g2: "?row m g1 = Some g2"
        and t2: "touched (\<lambda>a b. a < m \<or> (a = m \<and> b < nat (subdivisionsX g0)))
                   (with_force ext g0) g0 g2"
        using R by (auto simp: sx)
      have t3: "touched (\<lambda>a b. a < Suc m) (with_force ext g0) g0 g2"
        by (rule touched_cong [OF t2]) (use ok in \<open>auto simp: grid_ok_def\<close>)
      have "\<forall>i < Suc m. \<forall>j < nat (subdivisionsX g0). node_total ext g0 i j \<noteq> None"
        using True row less_Suc_eq by auto
      then show ?thesis by (simp add: for_each_append g1 g2 t3)
    qed
  qed
qed

lemma round_double_zero [simp]: "round_double 0 = 0"
  by (simp add: round_double_def)

lemma round_double_exact:
  assumes "x = of_int n * pow2 k" "\<bar>n\<bar> < 2 ^ 53" "- 1074 \<le> k"
  shows "round_double x = x"
  unfolding round_double_def using assms by (intro float_round_exact [of x n k]) simp_all

lemma round_double_eval:
  assumes "- 1022 \<le> e" "pow2 e \<le> \<bar>x\<bar>" "\<bar>x\<bar> < pow2 (e + 1)"
    and "round_even (x / pow2 (e - 52)) = n" and "y = pow2 (e - 52) * of_int n"
  shows "round_double x = y"
  unfolding round_double_def
  using float_round_normal [OF assms(1) assms(2) assms(3), of 53] assms(4) assms(5) by simp

lemma is_multiple_iff: "is_multiple k x \<longleftrightarrow> (\<exists>n::int. x * 2 ^ k = of_int n)"
  unfolding is_multiple_def by (metis floor_of_int)

lemma is_multiple_add: "is_multiple k x \<Longrightarrow> is_multiple k y \<Longrightarrow> is_multiple k (x + y)"
proof -
  assume "is_multiple k x" "is_multiple k y"
  then obtain n m :: int where "x * 2 ^ k = of_int n" "y * 2 ^ k = of_int m"
    unfolding is_multiple_iff by blast
  then have "(x + y) * 2 ^ k = of_int (n + m)" by (simp add: algebra_simps)
  then show ?thesis unfolding is_multiple_iff by blast
qed

lemma is_multiple_diff: "is_multiple k x \<Longrightarrow> is_multiple k y \<Longrightarrow> is_multiple k (x - y)"
proof -
  assume "is_multiple k x" "is_multiple k y"
  then obtain n m :: int where "x * 2 ^ k = of_int n" "y * 2 ^ k = of_int m"
    unfolding is_multiple_iff by blast
  then have "(x - y) * 2 ^ k = of_int (n - m)" by (simp add: algebra_simps)
  then show ?thesis unfolding is_multiple_iff by blast
qed

lemma is_multiple_quarter: "2 \<le> k \<Longrightarrow> is_multiple k (1 / 4)"
proof -
  assume "2 \<le> k"
  then obtain d where k: "k = d + 2" using le_Suc_ex [of 2 k] by (auto simp: add.commute)
  have "(1 / 4) * 2 ^ k = (of_int (2 ^ d) :: real)" by (simp add: k)
  then show ?thesis unfolding is_multiple_iff by blast
qed

lemma on_grid_iff: "on_grid k x \<longleftrightarrow> is_multiple k x \<and> \<bar>x\<bar> * 2 ^ k < 2 ^ 51"
  by (simp add: on_grid_def is_multiple_def)

lemma round_double_multiple:
  assumes "is_multiple k x" "\<bar>x\<bar> * 2 ^ k < 2 ^ 53" "k \<le> 1074"
  shows "round_double x = x"
proof -
  from assms(1) obtain n :: int where xn: "x * 2 ^ k = of_int n"
    unfolding is_multiple_iff by blast
  have p: "pow2 (- int k) = 1 / 2 ^ k" by (cases "k = 0") (simp_all add: pow2_def)
  have x: "x = of_int n * pow2 (- int k)"
    unfolding p using xn by (simp add: field_simps)
  have "\<bar>real_of_int n\<bar> = \<bar>x\<bar> * 2 ^ k" using xn [symmetric] by (simp add: abs_mult)
  then have "real_of_int \<bar>n\<bar> < real_of_int (2 ^ 53)" using assms(2) by simp
  then have n: "\<bar>n\<bar> < 2 ^ 53" by (simp only: of_int_less_iff)
  show ?thesis by (rule round_double_exact [OF x n]) (use assms(3) in simp)
qed

lemma drained_fields [simp]:
  "physicsStep (drained inp k w) = physicsStep w"
  "timebase (drained inp k w) = timebase w"
  "time (drained inp k w) = time w"
  "updates (drained inp k w) = updates w + k"
  "accumulator (drained inp k w) = drain_acc k (physicsStep w) (accumulator w)"
  by (simp_all add: drained_def)

lemma drain_turns:
  "turns n (physicsStep w) (accumulator w) \<Longrightarrow> drain inp w = Some (drained inp n w)"
proof (induction n arbitrary: w)
  case 0
  then show ?case by (subst drain.simps) (simp add: drained_def)
next
  case (Suc n)
  let ?s = "physicsStep w"
  let ?w' = "w\<lparr>body := body w \<bind> update inp (round_float ?s), updates := Suc (updates w),
                accumulator := round_double (accumulator w - ?s)\<rparr>"
  from Suc.prems have ge: "?s \<le> accumulator w"
    and t: "turns n (physicsStep ?w') (accumulator ?w')"
    by simp_all
  have "drain inp ?w' = Some (drained inp n ?w')" by (rule Suc.IH [OF t])
  moreover have "drained inp n ?w' = drained inp (Suc n) w"
  proof -
    define f where "f = (\<lambda>b. b \<bind> update inp (round_float ?s))"
    have "(f ^^ n) (f (body w)) = f ((f ^^ n) (body w))"
      by (rule funpow_swap1 [symmetric])
    then show ?thesis
      unfolding f_def by (simp add: drained_def)
  qed
  ultimately show ?case using ge by (subst drain.simps) simp
qed

lemma turns_exact:
  assumes s: "0 < s" and ms: "is_multiple k s" and k: "k \<le> 1074"
  shows "is_multiple k a \<Longrightarrow> 0 \<le> a \<Longrightarrow> a * 2 ^ k < 2 ^ 53 \<Longrightarrow> n = nat \<lfloor>a / s\<rfloor>
     \<Longrightarrow> turns n s a \<and> drain_acc n s a = a - real n * s"
proof (induction n arbitrary: a)
  case 0
  then have "\<lfloor>a / s\<rfloor> \<le> 0" by simp
  then have "a / s < 1" by linarith
  then have "a < s" using s by (simp add: field_simps)
  then show ?case by simp
next
  case (Suc n)
  from Suc.prems(4) have fl: "\<lfloor>a / s\<rfloor> = int n + 1" by linarith
  then have "1 \<le> a / s" by linarith
  then have ge: "s \<le> a" using s by (simp add: field_simps)
  define a' where "a' = a - s"
  have m': "is_multiple k a'" unfolding a'_def by (rule is_multiple_diff [OF Suc.prems(1) ms])
  have nn': "0 \<le> a'" using ge by (simp add: a'_def)
  have "a' \<le> a" using s by (simp add: a'_def)
  then have "a' * 2 ^ k \<le> a * 2 ^ k" by (intro mult_right_mono) simp_all
  then have b': "a' * 2 ^ k < 2 ^ 53" using Suc.prems(3) by linarith
  have r: "round_double (a - s) = a'"
    unfolding a'_def [symmetric]
    by (rule round_double_multiple [OF m' _ k]) (use nn' b' in simp)
  have "a' / s = a / s - 1" using s by (simp add: a'_def field_simps)
  then have "\<lfloor>a' / s\<rfloor> = int n" using fl by simp
  then have "n = nat \<lfloor>a' / s\<rfloor>" by simp
  from Suc.IH [OF m' nn' b' this]
  have "turns n s a'" and "drain_acc n s a' = a' - real n * s" by simp_all
  then show ?case
    unfolding turns.simps drain_acc.simps r using ge by (simp add: a'_def algebra_simps)
qed

lemma checkTime_skip:
  "round_double (t - timebase w) \<le> physicsStep w \<Longrightarrow> checkTime inp t w = Some (w\<lparr>time := t\<rparr>)"
  by (simp add: checkTime_def Let_def)

lemma checkTime_run:
  assumes "physicsStep w < round_double (t - timebase w)"
    and "turns n (physicsStep w)
           (round_double (accumulator w + min (round_double (t - timebase w)) 0.25))"
  shows "checkTime inp t w =
     Some (drained inp n
        (w\<lparr>time := t, timebase := t,
           accumulator := round_double (accumulator w + min (round_double (t - timebase w)) 0.25)\<rparr>))"
proof -
  let ?w3 = "w\<lparr>time := t, timebase := t,
           accumulator := round_double (accumulator w + min (round_double (t - timebase w)) 0.25)\<rparr>"
  have "checkTime inp t w = drain inp ?w3"
    using assms(1) by (simp add: checkTime_def Let_def min_def)
  moreover have "drain inp ?w3 = Some (drained inp n ?w3)"
    by (rule drain_turns) (use assms(2) in simp)
  ultimately show ?thesis by simp
qed

lemma frame_exact:
  assumes k: "2 \<le> k" "k \<le> 1074"
    and g: "on_grid k t" "on_grid k (physicsStep w)" "on_grid k (timebase w)"
      "on_grid k (accumulator w)"
    and s: "0 < physicsStep w" and a: "0 \<le> accumulator w"
  shows "round_double (t - timebase w) = t - timebase w"
    and "physicsStep w < t - timebase w \<Longrightarrow>
      round_double (accumulator w + min (t - timebase w) 0.25)
        = accumulator w + min (t - timebase w) 0.25
      \<and> is_multiple k (accumulator w + min (t - timebase w) 0.25)
      \<and> 0 \<le> accumulator w + min (t - timebase w) 0.25
      \<and> (accumulator w + min (t - timebase w) 0.25) * 2 ^ k < 2 ^ 53"
proof -
  have mt: "is_multiple k t" "\<bar>t\<bar> * 2 ^ k < 2 ^ 51"
    and mb: "is_multiple k (timebase w)" "\<bar>timebase w\<bar> * 2 ^ k < 2 ^ 51"
    and ma: "is_multiple k (accumulator w)" "\<bar>accumulator w\<bar> * 2 ^ k < 2 ^ 51"
    using g by (simp_all add: on_grid_iff)
  have md: "is_multiple k (t - timebase w)" by (rule is_multiple_diff [OF mt(1) mb(1)])
  have "\<bar>t - timebase w\<bar> * 2 ^ k \<le> (\<bar>t\<bar> + \<bar>timebase w\<bar>) * 2 ^ k"
    by (intro mult_right_mono) simp_all
  also have "\<dots> = \<bar>t\<bar> * 2 ^ k + \<bar>timebase w\<bar> * 2 ^ k" by (simp add: algebra_simps)
  also have "\<dots> < 2 ^ 51 + 2 ^ 51" using mt(2) mb(2) by linarith
  finally have bd: "\<bar>t - timebase w\<bar> * 2 ^ k < 2 ^ 52" by simp
  then have "\<bar>t - timebase w\<bar> * 2 ^ k < 2 ^ 53" by simp
  then show "round_double (t - timebase w) = t - timebase w"
    by (rule round_double_multiple [OF md _ k(2)])
  assume run: "physicsStep w < t - timebase w"
  define d where "d = min (t - timebase w) 0.25"
  have dpos: "0 < d" using run s by (simp add: d_def)
  have dm: "is_multiple k d"
    using md is_multiple_quarter [OF k(1)] by (simp add: d_def min_def)
  have "d \<le> \<bar>t - timebase w\<bar>" by (simp add: d_def)
  then have "d * 2 ^ k \<le> \<bar>t - timebase w\<bar> * 2 ^ k" by (intro mult_right_mono) simp_all
  then have db: "d * 2 ^ k < 2 ^ 52" using bd by linarith
  have m: "is_multiple k (accumulator w + d)" by (rule is_multiple_add [OF ma(1) dm])
  have nn: "0 \<le> accumulator w + d" using a dpos by simp
  have "(accumulator w + d) * 2 ^ k = \<bar>accumulator w\<bar> * 2 ^ k + d * 2 ^ k"
    using a by (simp add: algebra_simps)
  also have "\<dots> < 2 ^ 51 + 2 ^ 52" using ma(2) db by linarith
  finally have b: "(accumulator w + d) * 2 ^ k < 2 ^ 53" by simp
  have "round_double (accumulator w + d) = accumulator w + d"
    by (rule round_double_multiple [OF m _ k(2)]) (use nn b in simp)
  with m nn b show "round_double (accumulator w + min (t - timebase w) 0.25)
        = accumulator w + min (t - timebase w) 0.25
      \<and> is_multiple k (accumulator w + min (t - timebase w) 0.25)
      \<and> 0 \<le> accumulator w + min (t - timebase w) 0.25
      \<and> (accumulator w + min (t - timebase w) 0.25) * 2 ^ k < 2 ^ 53"
    by (simp add: d_def)
qed

lemma leftover_range:
  fixes x s :: real
  assumes "0 < s" "0 \<le> x"
  shows "0 \<le> x - real (nat \<lfloor>x / s\<rfloor>) * s" and "x - real (nat \<lfloor>x / s\<rfloor>) * s < s"
proof -
  have nn: "0 \<le> \<lfloor>x / s\<rfloor>" using assms by simp
  then have r: "real (nat \<lfloor>x / s\<rfloor>) = of_int \<lfloor>x / s\<rfloor>" by simp
  have "of_int \<lfloor>x / s\<rfloor> \<le> x / s" by (rule of_int_floor_le)
  then have "of_int \<lfloor>x / s\<rfloor> * s \<le> x"
    using pos_le_divide_eq [OF assms(1)] by blast
  then show "0 \<le> x - real (nat \<lfloor>x / s\<rfloor>) * s" using r by simp
  have "x / s < of_int \<lfloor>x / s\<rfloor> + 1" by linarith
  then have "x < (of_int \<lfloor>x / s\<rfloor> + 1) * s"
    using pos_divide_less_eq [OF assms(1)] by blast
  then show "x - real (nat \<lfloor>x / s\<rfloor>) * s < s" using r by (simp add: algebra_simps)
qed

lemma checkTime_exact:
  assumes k: "2 \<le> k" "k \<le> 1074"
    and g: "on_grid k t" "on_grid k (physicsStep w)" "on_grid k (timebase w)"
      "on_grid k (accumulator w)"
    and s: "0 < physicsStep w" and a: "0 \<le> accumulator w"
    and run: "physicsStep w < t - timebase w"
  shows "\<exists>w'. checkTime inp t w = Some w'
     \<and> w' = drained inp (nat \<lfloor>(accumulator w + min (t - timebase w) 0.25) / physicsStep w\<rfloor>)
              (w\<lparr>time := t, timebase := t,
                 accumulator := accumulator w + min (t - timebase w) 0.25\<rparr>)
     \<and> physicsStep w' = physicsStep w \<and> timebase w' = t \<and> time w' = t
     \<and> updates w' = updates w
          + nat \<lfloor>(accumulator w + min (t - timebase w) 0.25) / physicsStep w\<rfloor>
     \<and> accumulator w' = accumulator w + min (t - timebase w) 0.25
          - real (nat \<lfloor>(accumulator w + min (t - timebase w) 0.25) / physicsStep w\<rfloor>)
            * physicsStep w
     \<and> on_grid k (accumulator w')
     \<and> 0 \<le> accumulator w' \<and> accumulator w' < physicsStep w'"
proof -
  let ?s = "physicsStep w"
  define x where "x = accumulator w + min (t - timebase w) 0.25"
  define n where "n = nat \<lfloor>x / ?s\<rfloor>"
  note e1 = frame_exact(1) [OF k g s a]
  from frame_exact(2) [OF k g s a run]
  have e2: "round_double x = x" and m: "is_multiple k x" and nn: "0 \<le> x"
    and b: "x * 2 ^ k < 2 ^ 53"
    by (simp_all add: x_def)
  have ms: "is_multiple k ?s" and sb: "\<bar>?s\<bar> * 2 ^ k < 2 ^ 51"
    using g(2) by (simp_all add: on_grid_iff)
  from turns_exact [OF s ms k(2) m nn b, of n]
  have t: "turns n ?s x" and d: "drain_acc n ?s x = x - real n * ?s"
    by (simp_all add: n_def)
  define w' where "w' = drained inp n (w\<lparr>time := t, timebase := t, accumulator := x\<rparr>)"
  have run': "physicsStep w < round_double (t - timebase w)"
    unfolding e1 by (rule run)
  have t': "turns n ?s
      (round_double (accumulator w + min (round_double (t - timebase w)) 0.25))"
    unfolding e1 x_def [symmetric] e2 by (rule t)
  have "checkTime inp t w = Some (drained inp n
        (w\<lparr>time := t, timebase := t,
           accumulator := round_double (accumulator w + min (round_double (t - timebase w)) 0.25)\<rparr>))"
    by (rule checkTime_run [OF run' t'])
  then have ct: "checkTime inp t w = Some w'"
    unfolding e1 x_def [symmetric] e2 w'_def .
  have acc: "accumulator w' = x - real n * ?s" by (simp add: w'_def d)
  note lo = leftover_range [OF s nn]
  have r: "0 \<le> accumulator w'" "accumulator w' < ?s"
    using lo by (simp_all add: acc n_def)
  have "is_multiple k (real n * ?s)"
  proof (induction n)
    case 0
    show ?case by (simp add: is_multiple_iff)
  next
    case (Suc n)
    have "real (Suc n) * ?s = real n * ?s + ?s" by (simp add: algebra_simps)
    then show ?case using is_multiple_add [OF Suc ms] by simp
  qed
  then have ma: "is_multiple k (accumulator w')"
    unfolding acc by (rule is_multiple_diff [OF m])
  have "\<bar>accumulator w'\<bar> * 2 ^ k \<le> \<bar>?s\<bar> * 2 ^ k"
    using r s by (intro mult_right_mono) simp_all
  then have "\<bar>accumulator w'\<bar> * 2 ^ k < 2 ^ 51" using sb by linarith
  then have og: "on_grid k (accumulator w')" using ma by (simp add: on_grid_iff)
  have "\<exists>w'. checkTime inp t w = Some w'
     \<and> w' = drained inp n (w\<lparr>time := t, timebase := t, accumulator := x\<rparr>)
     \<and> physicsStep w' = physicsStep w \<and> timebase w' = t \<and> time w' = t
     \<and> updates w' = updates w + n
     \<and> accumulator w' = x - real n * physicsStep w
     \<and> on_grid k (accumulator w')
     \<and> 0 \<le> accumulator w' \<and> accumulator w' < physicsStep w'"
    using ct r og acc by (intro exI [of _ w']) (simp add: w'_def)
  then show ?thesis unfolding n_def x_def .
qed


lemma clamped_total_nonneg: "0 < step \<Longrightarrow> 0 \<le> clamped_total step tb ts"
  by (induction ts arbitrary: tb) (auto simp: min_def)

lemma frames_total:
  assumes k: "2 \<le> k" "k \<le> 1074"
  shows "list_all (on_grid k) ts \<Longrightarrow> on_grid k (physicsStep w) \<Longrightarrow> on_grid k (timebase w)
     \<Longrightarrow> on_grid k (accumulator w)
     \<Longrightarrow> 0 < physicsStep w \<Longrightarrow> 0 \<le> accumulator w \<Longrightarrow> accumulator w < physicsStep w
     \<Longrightarrow> \<exists>w'. frames inp ts w = Some w'
     \<and> physicsStep w' = physicsStep w
     \<and> updates w' = updates w
          + nat \<lfloor>(accumulator w + clamped_total (physicsStep w) (timebase w) ts) / physicsStep w\<rfloor>
     \<and> accumulator w' = accumulator w + clamped_total (physicsStep w) (timebase w) ts
          - real (nat \<lfloor>(accumulator w + clamped_total (physicsStep w) (timebase w) ts)
                        / physicsStep w\<rfloor>) * physicsStep w"
proof (induction ts arbitrary: w)
  case Nil
  then have "accumulator w / physicsStep w < 1" "0 \<le> accumulator w / physicsStep w"
    by (simp_all add: field_simps)
  then have "\<lfloor>accumulator w / physicsStep w\<rfloor> = 0" by linarith
  then show ?case by simp
next
  case (Cons t ts)
  let ?s = "physicsStep w"
  have gt: "on_grid k t" and gts: "list_all (on_grid k) ts" using Cons.prems(1) by simp_all
  note g = gt Cons.prems(2) Cons.prems(3) Cons.prems(4)
  note e1 = frame_exact(1) [OF k g Cons.prems(5) Cons.prems(6)]
  show ?case
  proof (cases "?s < t - timebase w")
    case False
    then have ct: "checkTime inp t w = Some (w\<lparr>time := t\<rparr>)"
      by (simp add: checkTime_skip e1)
    have "\<exists>w'. frames inp ts (w\<lparr>time := t\<rparr>) = Some w' \<and> physicsStep w' = physicsStep (w\<lparr>time := t\<rparr>)
     \<and> updates w' = updates (w\<lparr>time := t\<rparr>)
          + nat \<lfloor>(accumulator (w\<lparr>time := t\<rparr>) + clamped_total (physicsStep (w\<lparr>time := t\<rparr>)) (timebase (w\<lparr>time := t\<rparr>)) ts) / physicsStep (w\<lparr>time := t\<rparr>)\<rfloor>
     \<and> accumulator w' = accumulator (w\<lparr>time := t\<rparr>) + clamped_total (physicsStep (w\<lparr>time := t\<rparr>)) (timebase (w\<lparr>time := t\<rparr>)) ts
          - real (nat \<lfloor>(accumulator (w\<lparr>time := t\<rparr>) + clamped_total (physicsStep (w\<lparr>time := t\<rparr>)) (timebase (w\<lparr>time := t\<rparr>)) ts)
                        / physicsStep (w\<lparr>time := t\<rparr>)\<rfloor>) * physicsStep (w\<lparr>time := t\<rparr>)"
      by (rule Cons.IH) (use Cons.prems gts in simp_all)
    then show ?thesis using False by (simp add: ct e1)
  next
    case True
    define d where "d = min (t - timebase w) 0.25"
    define n where "n = nat \<lfloor>(accumulator w + d) / ?s\<rfloor>"
    define C where "C = clamped_total ?s t ts"
    from checkTime_exact [OF k g Cons.prems(5) Cons.prems(6) True, of inp]
    obtain w1 where ct: "checkTime inp t w = Some w1"
      and f1: "physicsStep w1 = ?s" "timebase w1 = t" "updates w1 = updates w + n"
        "accumulator w1 = accumulator w + d - real n * ?s"
      and g1: "on_grid k (accumulator w1)"
      and r1: "0 \<le> accumulator w1" "accumulator w1 < physicsStep w1"
      unfolding d_def n_def by blast
    have dpos: "0 < d" using True Cons.prems(5) by (simp add: d_def)
    have "\<exists>w'. frames inp ts w1 = Some w' \<and> physicsStep w' = physicsStep w1
     \<and> updates w' = updates w1
          + nat \<lfloor>(accumulator w1 + clamped_total (physicsStep w1) (timebase w1) ts) / physicsStep w1\<rfloor>
     \<and> accumulator w' = accumulator w1 + clamped_total (physicsStep w1) (timebase w1) ts
          - real (nat \<lfloor>(accumulator w1 + clamped_total (physicsStep w1) (timebase w1) ts)
                        / physicsStep w1\<rfloor>) * physicsStep w1"
      by (rule Cons.IH) (use Cons.prems gts gt g1 r1 in \<open>simp_all add: f1\<close>)
    then obtain w' where fr: "frames inp ts w1 = Some w'" and ps: "physicsStep w' = ?s"
      and up: "updates w' = updates w + n + nat \<lfloor>(accumulator w1 + C) / ?s\<rfloor>"
      and ac: "accumulator w' = accumulator w1 + C
                 - real (nat \<lfloor>(accumulator w1 + C) / ?s\<rfloor>) * ?s"
      by (auto simp: f1 C_def)
    have Cnn: "0 \<le> C" unfolding C_def by (rule clamped_total_nonneg [OF Cons.prems(5)])
    have tot: "clamped_total ?s (timebase w) (t # ts) = d + C"
      using True by (simp add: d_def C_def e1)
    have "(accumulator w1 + C) / ?s = (accumulator w + d + C) / ?s - of_int (int n)"
      using Cons.prems(5) by (simp add: f1 field_simps)
    then have fl: "\<lfloor>(accumulator w1 + C) / ?s\<rfloor> = \<lfloor>(accumulator w + d + C) / ?s\<rfloor> - int n"
      by (simp only: floor_diff_of_int)
    have "0 \<le> (accumulator w1 + C) / ?s" using r1 Cnn Cons.prems(5) by (simp add: f1)
    then have nn: "0 \<le> \<lfloor>(accumulator w1 + C) / ?s\<rfloor>" by simp
    then have nk: "n + nat \<lfloor>(accumulator w1 + C) / ?s\<rfloor> = nat \<lfloor>(accumulator w + d + C) / ?s\<rfloor>"
      using fl by linarith
    have "accumulator w' = accumulator w + d + C
             - real (n + nat \<lfloor>(accumulator w1 + C) / ?s\<rfloor>) * ?s"
      using ac by (simp add: f1 algebra_simps)
    then show ?thesis
      using up ps fr nk by (simp add: ct tot add.assoc del: clamped_total.simps)
  qed
qed


lemma if_then_holds: "(if C then A else B) \<Longrightarrow> C \<Longrightarrow> A"
  by simp

lemma if_else_holds: "(if C then A else B) \<Longrightarrow> \<not> C \<Longrightarrow> B"
  by simp

lemma row_integrate:
  assumes i: "i < length (bodies g0)" and t: "touched (\<lambda>a b. a < i) (\<lambda>_ _. h) g0 g"
  shows "n \<le> length (bodies g0 ! i) \<Longrightarrow>
     touched (\<lambda>a b. a < i \<or> (a = i \<and> b < n)) (\<lambda>_ _. h) g0
       (fold (\<lambda>j gj. upd_body gj i j h) [0..<n] g)"
proof (induction n)
  case 0
  show ?case using t by simp
next
  case (Suc n)
  then have n: "n < length (bodies g0 ! i)" and le: "n \<le> length (bodies g0 ! i)" by simp_all
  let ?g1 = "fold (\<lambda>j gj. upd_body gj i j h) [0..<n] g"
  have t1: "touched (\<lambda>a b. a < i \<or> (a = i \<and> b < n)) (\<lambda>_ _. h) g0 ?g1"
    by (rule Suc.IH [OF le])
  have "touched (\<lambda>a b. (a < i \<or> (a = i \<and> b < n)) \<or> (a = i \<and> b = n)) (\<lambda>_ _. h) g0
          (upd_body ?g1 i n h)"
    by (rule touched_upd [OF t1 i n]) simp_all
  then have "touched (\<lambda>a b. a < i \<or> (a = i \<and> b < Suc n)) (\<lambda>_ _. h) g0 (upd_body ?g1 i n h)"
    by (rule touched_cong) auto
  then show ?case by simp
qed

lemma all_integrate:
  assumes ok: "grid_ok g0"
  shows "m \<le> nat (subdivisionsY g0) \<Longrightarrow>
     touched (\<lambda>a b. a < m) (\<lambda>_ _. h) g0
       (fold (\<lambda>i gi. fold (\<lambda>j gj. upd_body gj i j h) [0..<nat (subdivisionsX gi)] gi) [0..<m] g0)"
proof (induction m)
  case 0
  show ?case by (simp add: touched_none)
next
  case (Suc m)
  then have m: "m < nat (subdivisionsY g0)" and le: "m \<le> nat (subdivisionsY g0)" by simp_all
  let ?g1 = "fold (\<lambda>i gi. fold (\<lambda>j gj. upd_body gj i j h) [0..<nat (subdivisionsX gi)] gi) [0..<m] g0"
  have t1: "touched (\<lambda>a b. a < m) (\<lambda>_ _. h) g0 ?g1" by (rule Suc.IH [OF le])
  have sx: "subdivisionsX ?g1 = subdivisionsX g0" using touched_scalars [OF t1] by simp
  have mi: "m < length (bodies g0)" and row: "length (bodies g0 ! m) = nat (subdivisionsX g0)"
    using ok m by (simp_all add: grid_ok_def)
  have "touched (\<lambda>a b. a < m \<or> (a = m \<and> b < nat (subdivisionsX g0))) (\<lambda>_ _. h) g0
          (fold (\<lambda>j gj. upd_body gj m j h) [0..<nat (subdivisionsX g0)] ?g1)"
    by (rule row_integrate [OF mi t1]) (simp add: row)
  then have "touched (\<lambda>a b. a < Suc m) (\<lambda>_ _. h) g0
          (fold (\<lambda>j gj. upd_body gj m j h) [0..<nat (subdivisionsX g0)] ?g1)"
    by (rule touched_cong) (use ok in \<open>auto simp: grid_ok_def\<close>)
  then show ?case by (simp add: sx)
qed

lemma integrate_all_touched:
  assumes "grid_ok g"
  shows "touched (\<lambda>_ _. True) (\<lambda>_ _. IntegrateLinear dt) g (integrate_all dt g)"
proof -
  have "touched (\<lambda>a b. a < nat (subdivisionsY g)) (\<lambda>_ _. IntegrateLinear dt) g (integrate_all dt g)"
    unfolding integrate_all_def by (rule all_integrate [OF assms]) simp
  then show ?thesis
    by (rule touched_cong) (use assms in \<open>simp add: grid_ok_def\<close>)
qed

lemma accumulate_forces_touched:
  assumes ok: "grid_ok g"
  shows "if \<forall>i < nat (subdivisionsY g). \<forall>j < nat (subdivisionsX g). node_total ext g i j \<noteq> None
     then \<exists>g'. accumulate_forces ext g = Some g' \<and> touched (\<lambda>_ _. True) (with_force ext g) g g'
     else accumulate_forces ext g = None"
proof (cases "\<forall>i < nat (subdivisionsY g). \<forall>j < nat (subdivisionsX g). node_total ext g i j \<noteq> None")
  case False
  have "accumulate_forces ext g = None"
    unfolding accumulate_forces_def
    by (rule if_else_holds [OF all_forces [OF ok order_refl] False])
  with False show ?thesis by simp
next
  case True
  have "\<exists>g'. accumulate_forces ext g = Some g'
          \<and> touched (\<lambda>a b. a < nat (subdivisionsY g)) (with_force ext g) g g'"
    unfolding accumulate_forces_def
    by (rule if_then_holds [OF all_forces [OF ok order_refl] True])
  then obtain g' where a: "accumulate_forces ext g = Some g'"
    and t: "touched (\<lambda>a b. a < nat (subdivisionsY g)) (with_force ext g) g g'"
    by blast
  have "touched (\<lambda>_ _. True) (with_force ext g) g g'"
    by (rule touched_cong [OF t]) (use ok in \<open>simp add: grid_ok_def\<close>)
  with True a show ?thesis by simp
qed

lemma touched_grid_ok: "touched P H g0 g \<Longrightarrow> grid_ok g0 \<Longrightarrow> grid_ok g"
  by (simp add: touched_def grid_ok_def scalars_eq_def)

lemma touched_trans:
  assumes "touched (\<lambda>_ _. True) H1 g0 g1" "touched (\<lambda>_ _. True) H2 g1 g2"
  shows "touched (\<lambda>_ _. True) (\<lambda>i j b. H2 i j (H1 i j b)) g0 g2"
  using assms by (simp add: touched_def scalars_eq_def)

lemma update_touched:
  assumes ok: "grid_ok g"
  shows "if \<forall>i < nat (subdivisionsY g). \<forall>j < nat (subdivisionsX g).
             node_total (externalForce inp) g i j \<noteq> None
     then \<exists>g'. update inp dt g = Some g'
            \<and> touched (\<lambda>_ _. True) (stepped (externalForce inp) dt g) g g'
     else update inp dt g = None"
proof (cases "\<forall>i < nat (subdivisionsY g). \<forall>j < nat (subdivisionsX g).
             node_total (externalForce inp) g i j \<noteq> None")
  case False
  have "accumulate_forces (externalForce inp) g = None"
    by (rule if_else_holds [OF accumulate_forces_touched [OF ok] False])
  with False show ?thesis by (simp add: update_def)
next
  case True
  have "\<exists>g1. accumulate_forces (externalForce inp) g = Some g1
          \<and> touched (\<lambda>_ _. True) (with_force (externalForce inp) g) g g1"
    by (rule if_then_holds [OF accumulate_forces_touched [OF ok] True])
  then obtain g1 where a: "accumulate_forces (externalForce inp) g = Some g1"
    and t1: "touched (\<lambda>_ _. True) (with_force (externalForce inp) g) g g1"
    by blast
  have ok1: "grid_ok g1" by (rule touched_grid_ok [OF t1 ok])
  have t2: "touched (\<lambda>_ _. True) (\<lambda>_ _. IntegrateLinear dt) g1 (integrate_all dt g1)"
    by (rule integrate_all_touched [OF ok1])
  have "touched (\<lambda>_ _. True) (\<lambda>i j b. IntegrateLinear dt (with_force (externalForce inp) g i j b))
          g (integrate_all dt g1)"
    by (rule touched_trans [OF t1 t2])
  then have "touched (\<lambda>_ _. True) (stepped (externalForce inp) dt g) g (integrate_all dt g1)"
    by (simp add: stepped_def [abs_def])
  with True a show ?thesis by (simp add: update_def)
qed

lemma spring_force_Some:
  "spring_force g i j ni nj r = Some f \<longleftrightarrow>
     normalize (displacement_to g i j (int ni, int nj)) \<noteq> None
     \<and> f = contribution g i j ((int ni, int nj), r)"
  by (auto simp: spring_force_def normalize_def contribution_def displacement_to_def Let_def)

lemma spring_force_None:
  "spring_force g i j ni nj r = None
     \<longleftrightarrow> normalize (displacement_to g i j (int ni, int nj)) = None"
  by (simp add: spring_force_def displacement_to_def Let_def split: option.splits)

lemma links_guards:
  assumes i: "i < nat (subdivisionsY g)" and j: "j < nat (subdivisionsX g)"
  shows "links g i j =
     (if 0 < i then [((int i - 1, int j), restHeight g)] else [])
     @ (if int i < subdivisionsY g - 1 then [((int i + 1, int j), restHeight g)] else [])
     @ (if 0 < j then [((int i, int j - 1), restWidth g)] else [])
     @ (if int j < subdivisionsX g - 1 then [((int i, int j + 1), restWidth g)] else [])"
proof -
  have g1: "in_grid g (int i - 1, int j) \<longleftrightarrow> 0 < i"
    and g2: "in_grid g (int i + 1, int j) \<longleftrightarrow> int i < subdivisionsY g - 1"
    and g3: "in_grid g (int i, int j - 1) \<longleftrightarrow> 0 < j"
    and g4: "in_grid g (int i, int j + 1) \<longleftrightarrow> int j < subdivisionsX g - 1"
    using i j by (auto simp: in_grid_def)
  show ?thesis
    unfolding links_def neighbours4_def filter.simps fst_conv g1 g2 g3 g4 by simp
qed

lemma node_total_links:
  assumes i: "i < nat (subdivisionsY g)" and j: "j < nat (subdivisionsX g)"
    and s: "node_total ext g i j = Some f"
  shows "f = sum_list (map (contribution g i j) (links g i j)) + (if i = 0 then ext else 0)"
    and "\<forall>l \<in> set (links g i j). normalize (displacement_to g i j (fst l)) \<noteq> None"
proof -
  show "f = sum_list (map (contribution g i j) (links g i j)) + (if i = 0 then ext else 0)"
    using s unfolding links_guards [OF i j]
    by (cases "0 < i"; cases "int i < subdivisionsY g - 1"; cases "0 < j";
        cases "int j < subdivisionsX g - 1")
      (auto simp: node_total_def spring_force_Some add.assoc int_Suc simp del: of_nat_Suc
         split: Option.bind_splits)
  show "\<forall>l \<in> set (links g i j). normalize (displacement_to g i j (fst l)) \<noteq> None"
    using s unfolding links_guards [OF i j]
    by (cases "0 < i"; cases "int i < subdivisionsY g - 1"; cases "0 < j";
        cases "int j < subdivisionsX g - 1")
      (auto simp: node_total_def spring_force_Some int_Suc simp del: of_nat_Suc
         split: Option.bind_splits)
qed

lemma length_links:
  assumes "i < nat n" "j < nat n" "subdivisionsX g = n" "subdivisionsY g = n" "2 \<le> n"
  shows "length (links g i j)
     = 4 - (if on_border n i then 1 else 0) - (if on_border n j then 1 else 0)"
  using assms unfolding links_def neighbours4_def
  by (auto simp: in_grid_def on_border_def)

lemma vlength_zero_iff: "vlength v = 0 \<longleftrightarrow> v = 0"
proof -
  have "vx v * vx v + vy v * vy v + vz v * vz v = 0 \<longleftrightarrow> vx v = 0 \<and> vy v = 0 \<and> vz v = 0"
    by (simp add: add_nonneg_eq_0_iff)
  then show ?thesis
    by (cases v) (simp add: vlength_def zero_vec3_def)
qed

lemma spring_force_None_iff:
  "spring_force g i j ni nj r = None
     \<longleftrightarrow> normalize (position (bodies g ! ni ! nj) - position (bodies g ! i ! j)) = None"
  by (simp add: spring_force_def Let_def split: option.splits)

lemma spring_force_SomeD:
  "spring_force g i j ni nj r = Some f
     \<Longrightarrow> normalize (position (bodies g ! ni ! nj) - position (bodies g ! i ! j)) \<noteq> None"
  using spring_force_None_iff [of g i j ni nj r] by auto

lemma node_total_None_iff:
  "node_total ext g i j = None \<longleftrightarrow>
     (0 < i
        \<and> normalize (position (bodies g ! (i - 1) ! j) - position (bodies g ! i ! j)) = None)
     \<or> (int i < subdivisionsY g - 1
          \<and> normalize (position (bodies g ! (i + 1) ! j) - position (bodies g ! i ! j)) = None)
     \<or> (0 < j
          \<and> normalize (position (bodies g ! i ! (j - 1)) - position (bodies g ! i ! j)) = None)
     \<or> (int j < subdivisionsX g - 1
          \<and> normalize (position (bodies g ! i ! (j + 1)) - position (bodies g ! i ! j)) = None)"
  unfolding node_total_def
  by (cases "0 < i"; cases "int i < subdivisionsY g - 1"; cases "0 < j";
      cases "int j < subdivisionsX g - 1")
    (auto simp: spring_force_None_iff dest: spring_force_SomeD split: Option.bind_splits)

lemma all_defined_iff:
  "(\<forall>i < nat (subdivisionsY g). \<forall>j < nat (subdivisionsX g). node_total ext g i j \<noteq> None)
     \<longleftrightarrow> \<not> degenerate_link g"
proof
  assume all: "\<forall>i < nat (subdivisionsY g). \<forall>j < nat (subdivisionsX g). node_total ext g i j \<noteq> None"
  show "\<not> degenerate_link g"
  proof
    assume "degenerate_link g"
    then obtain i j where ij: "i < nat (subdivisionsY g)" "j < nat (subdivisionsX g)"
      and c: "(int i < subdivisionsY g - 1
           \<and> normalize (position (bodies g ! (i + 1) ! j) - position (bodies g ! i ! j)) = None)
        \<or> (int j < subdivisionsX g - 1
           \<and> normalize (position (bodies g ! i ! (j + 1)) - position (bodies g ! i ! j)) = None)"
      unfolding degenerate_link_def by blast
    from c have "node_total ext g i j = None"
      unfolding node_total_None_iff by blast
    with all ij show False by blast
  qed
next
  assume nc: "\<not> degenerate_link g"
  show "\<forall>i < nat (subdivisionsY g). \<forall>j < nat (subdivisionsX g). node_total ext g i j \<noteq> None"
  proof (intro allI impI notI)
    fix i j
    assume i: "i < nat (subdivisionsY g)" and j: "j < nat (subdivisionsX g)"
      and n: "node_total ext g i j = None"
    from n consider
      (up) "0 < i"
          "normalize (position (bodies g ! (i - 1) ! j) - position (bodies g ! i ! j)) = None"
      | (down) "int i < subdivisionsY g - 1"
          "normalize (position (bodies g ! (i + 1) ! j) - position (bodies g ! i ! j)) = None"
      | (left) "0 < j"
          "normalize (position (bodies g ! i ! (j - 1)) - position (bodies g ! i ! j)) = None"
      | (right) "int j < subdivisionsX g - 1"
          "normalize (position (bodies g ! i ! (j + 1)) - position (bodies g ! i ! j)) = None"
      unfolding node_total_None_iff by (elim disjE conjE) auto
    then have "degenerate_link g"
    proof cases
      case up
      have "normalize (position (bodies g ! i ! j) - position (bodies g ! (i - 1) ! j)) = None"
        using up(2) by (subst normalize_minus)
      then have "i - 1 < nat (subdivisionsY g)" "int (i - 1) < subdivisionsY g - 1"
        "normalize (position (bodies g ! (i - 1 + 1) ! j) - position (bodies g ! (i - 1) ! j))
           = None"
        using i up(1) by simp_all
      then show ?thesis unfolding degenerate_link_def using j by blast
    next
      case down
      then show ?thesis unfolding degenerate_link_def using i j by blast
    next
      case left
      have "normalize (position (bodies g ! i ! j) - position (bodies g ! i ! (j - 1))) = None"
        using left(2) by (subst normalize_minus)
      then have "j - 1 < nat (subdivisionsX g)" "int (j - 1) < subdivisionsX g - 1"
        "normalize (position (bodies g ! i ! (j - 1 + 1)) - position (bodies g ! i ! (j - 1)))
           = None"
        using j left(1) by simp_all
      then show ?thesis unfolding degenerate_link_def using i by blast
    next
      case right
      then show ?thesis unfolding degenerate_link_def using i j by blast
    qed
    with nc show False by simp
  qed
qed

lemma update_defined_iff:
  assumes "grid_ok g"
  shows "update inp dt g = None \<longleftrightarrow> degenerate_link g"
    and "accumulate_forces ext g = None \<longleftrightarrow> degenerate_link g"
proof -
  show "update inp dt g = None \<longleftrightarrow> degenerate_link g"
    using update_touched [OF assms, of inp dt]
    unfolding all_defined_iff by (auto split: if_splits)
  show "accumulate_forces ext g = None \<longleftrightarrow> degenerate_link g"
    using accumulate_forces_touched [OF assms, of ext]
    unfolding all_defined_iff by (auto split: if_splits)
qed

lemma coincident_degenerate: "coincident_link g \<Longrightarrow> degenerate_link g"
  unfolding coincident_link_def degenerate_link_def
  by (elim exE conjE disjE) (intro exI conjI, assumption, assumption, simp)+

lemma in_range_not_degenerate: "links_in_float_range g \<Longrightarrow> \<not> degenerate_link g"
  unfolding links_in_float_range_def degenerate_link_def
  by (auto simp: normalize_in_range)

lemma SoftBody_ctor_positive:
  "0 < subX \<Longrightarrow> 0 < subY \<Longrightarrow>
     SoftBody_ctor width height subX subY coeff damp = Built (lattice width height subX subY coeff damp)"
  by (simp add: SoftBody_ctor_def lattice_def Let_def)

lemma SoftBody_ctor_Built:
  "SoftBody_ctor width height subX subY coeff damp = Built g \<longleftrightarrow>
     0 < subX \<and> 0 < subY \<and> g = lattice width height subX subY coeff damp"
  by (auto simp: SoftBody_ctor_def lattice_def Let_def)

lemma lattice_fields [simp]:
  "subdivisionsX (lattice width height subX subY coeff damp) = subX"
  "subdivisionsY (lattice width height subX subY coeff damp) = subY"
  "restHeight (lattice width height subX subY coeff damp) = height / real_of_int subY"
  "restWidth (lattice width height subX subY coeff damp) = width / real_of_int subX"
  "coefficient (lattice width height subX subY coeff damp) = coeff"
  "dampening (lattice width height subX subY coeff damp) = damp"
  "length (bodies (lattice width height subX subY coeff damp)) = nat subY"
  by (simp_all add: lattice_def)

lemma lattice_node:
  "i < nat subY \<Longrightarrow> j < nat subX \<Longrightarrow>
     bodies (lattice width height subX subY coeff damp) ! i ! j =
       RigidBody_ctor
         (Vec3 (- width / 2 + width / real_of_int subX * real j)
            (- height / 2 + height / real_of_int subY * real i) 0)
         (Vec3 0 0 0) (Vec3 0 0 0) 1"
  by (simp add: lattice_def)

lemma lattice_row [simp]:
  "i < nat subY \<Longrightarrow> length (bodies (lattice width height subX subY coeff damp) ! i) = nat subX"
  by (simp add: lattice_def)

lemma lattice_ok: "grid_ok (lattice width height subX subY coeff damp)"
  by (simp add: grid_ok_def)

lemma lattice_position:
  "i < nat subY \<Longrightarrow> j < nat subX \<Longrightarrow>
     position (bodies (lattice width height subX subY coeff damp) ! i ! j) =
       Vec3 (- width / 2 + width / real_of_int subX * real j)
            (- height / 2 + height / real_of_int subY * real i) 0"
  by (simp add: lattice_node RigidBody_ctor_def)

lemma lattice_coincident:
  assumes "0 < subX" "0 < subY"
  shows "coincident_link (lattice width height subX subY coeff damp)
     \<longleftrightarrow> (2 \<le> subY \<and> height = 0) \<or> (2 \<le> subX \<and> width = 0)"
proof
  assume "coincident_link (lattice width height subX subY coeff damp)"
  then obtain i j where ij: "i < nat subY" "j < nat subX"
    and c: "(int i < subY - 1
           \<and> position (bodies (lattice width height subX subY coeff damp) ! (i + 1) ! j)
               = position (bodies (lattice width height subX subY coeff damp) ! i ! j))
        \<or> (int j < subX - 1
           \<and> position (bodies (lattice width height subX subY coeff damp) ! i ! (j + 1))
               = position (bodies (lattice width height subX subY coeff damp) ! i ! j))"
    unfolding coincident_link_def by auto
  from c show "(2 \<le> subY \<and> height = 0) \<or> (2 \<le> subX \<and> width = 0)"
  proof
    assume a: "int i < subY - 1
           \<and> position (bodies (lattice width height subX subY coeff damp) ! (i + 1) ! j)
               = position (bodies (lattice width height subX subY coeff damp) ! i ! j)"
    then have "i + 1 < nat subY" by linarith
    with a ij assms show ?thesis
      by (simp add: lattice_position algebra_simps)
  next
    assume a: "int j < subX - 1
           \<and> position (bodies (lattice width height subX subY coeff damp) ! i ! (j + 1))
               = position (bodies (lattice width height subX subY coeff damp) ! i ! j)"
    then have "j + 1 < nat subX" by linarith
    with a ij assms show ?thesis
      by (simp add: lattice_position algebra_simps)
  qed
next
  assume "(2 \<le> subY \<and> height = 0) \<or> (2 \<le> subX \<and> width = 0)"
  then show "coincident_link (lattice width height subX subY coeff damp)"
  proof
    assume a: "2 \<le> subY \<and> height = 0"
    then have "(0::nat) < nat subY" "(0::nat) < nat subX" "int 0 < subY - 1" "0 + 1 < nat subY"
      using assms by simp_all
    moreover from this a
    have "position (bodies (lattice width height subX subY coeff damp) ! (0 + 1) ! 0)
               = position (bodies (lattice width height subX subY coeff damp) ! 0 ! 0)"
      by (simp add: lattice_position)
    ultimately show ?thesis unfolding coincident_link_def lattice_fields by blast
  next
    assume a: "2 \<le> subX \<and> width = 0"
    then have "(0::nat) < nat subY" "(0::nat) < nat subX" "int 0 < subX - 1" "0 + 1 < nat subX"
      using assms by simp_all
    moreover from this a
    have "position (bodies (lattice width height subX subY coeff damp) ! 0 ! (0 + 1))
               = position (bodies (lattice width height subX subY coeff damp) ! 0 ! 0)"
      by (simp add: lattice_position)
    ultimately show ?thesis unfolding coincident_link_def lattice_fields by blast
  qed
qed

lemma lattice_up:
  assumes "i + 1 < nat subY" "j < nat subX"
  shows "position (bodies (lattice width height subX subY coeff damp) ! (i + 1) ! j)
           - position (bodies (lattice width height subX subY coeff damp) ! i ! j)
         = Vec3 0 (height / real_of_int subY) 0"
  using assms by (simp add: lattice_position minus_vec3_def algebra_simps add_divide_distrib)

lemma lattice_right:
  assumes "i < nat subY" "j + 1 < nat subX"
  shows "position (bodies (lattice width height subX subY coeff damp) ! i ! (j + 1))
           - position (bodies (lattice width height subX subY coeff damp) ! i ! j)
         = Vec3 (width / real_of_int subX) 0 0"
  using assms by (simp add: lattice_position minus_vec3_def algebra_simps add_divide_distrib)

lemma in_float_range_axis:
  "1 / 2 ^ 60 \<le> r \<Longrightarrow> r \<le> 2 ^ 60 \<Longrightarrow> in_float_range (Vec3 r 0 0)"
  "1 / 2 ^ 60 \<le> r \<Longrightarrow> r \<le> 2 ^ 60 \<Longrightarrow> in_float_range (Vec3 0 r 0)"
  "1 / 2 ^ 60 \<le> r \<Longrightarrow> r \<le> 2 ^ 60 \<Longrightarrow> in_float_range (Vec3 (- r) 0 0)"
  "1 / 2 ^ 60 \<le> r \<Longrightarrow> r \<le> 2 ^ 60 \<Longrightarrow> in_float_range (Vec3 0 (- r) 0)"
proof -
  assume a: "1 / 2 ^ 60 \<le> r" "r \<le> 2 ^ 60"
  have "(0::real) < 1 / 2 ^ 60" by simp
  with a(1) have "0 < r" by linarith
  then have "\<bar>r\<bar> = r" by simp
  with a show "in_float_range (Vec3 r 0 0)" "in_float_range (Vec3 0 r 0)"
    "in_float_range (Vec3 (- r) 0 0)" "in_float_range (Vec3 0 (- r) 0)"
    by (simp_all add: in_float_range_def)
qed

lemma lattice_in_range:
  assumes "1 / 2 ^ 60 \<le> width / real_of_int subX" "width / real_of_int subX \<le> 2 ^ 60"
    and "1 / 2 ^ 60 \<le> height / real_of_int subY" "height / real_of_int subY \<le> 2 ^ 60"
  shows "links_in_float_range (lattice width height subX subY coeff damp)"
  unfolding links_in_float_range_def lattice_fields
proof (intro allI impI conjI)
  fix i j
  assume i: "i < nat subY" and j: "j < nat subX"
  let ?g = "lattice width height subX subY coeff damp"
  show "in_float_range (position (bodies ?g ! (i + 1) ! j) - position (bodies ?g ! i ! j))"
    if "int i < subY - 1"
  proof -
    have i1: "i + 1 < nat subY" using that by linarith
    show ?thesis
      unfolding lattice_up [OF i1 j] by (rule in_float_range_axis(2) [OF assms(3) assms(4)])
  qed
  show "in_float_range (position (bodies ?g ! i ! (j + 1)) - position (bodies ?g ! i ! j))"
    if "int j < subX - 1"
  proof -
    have j1: "j + 1 < nat subX" using that by linarith
    show ?thesis
      unfolding lattice_right [OF i j1] by (rule in_float_range_axis(1) [OF assms(1) assms(2)])
  qed
qed

lemma lattice_defined:
  assumes "1 / 2 ^ 60 \<le> width / real_of_int subX" "width / real_of_int subX \<le> 2 ^ 60"
    and "1 / 2 ^ 60 \<le> height / real_of_int subY" "height / real_of_int subY \<le> 2 ^ 60"
  shows "\<not> degenerate_link (lattice width height subX subY coeff damp)"
  by (rule in_range_not_degenerate [OF lattice_in_range [OF assms]])

lemma touched_all_nth:
  assumes "touched (\<lambda>_ _. True) H g0 g" "grid_ok g0"
    "i < nat (subdivisionsY g0)" "j < nat (subdivisionsX g0)"
  shows "bodies g ! i ! j = H i j (bodies g0 ! i ! j)"
  using assms by (simp add: touched_def grid_ok_def)

lemma accumulate_forces_Some:
  assumes ok: "grid_ok g" and a: "accumulate_forces ext g = Some g'"
  shows "touched (\<lambda>_ _. True) (with_force ext g) g g'"
    and "\<forall>i < nat (subdivisionsY g). \<forall>j < nat (subdivisionsX g). node_total ext g i j \<noteq> None"
proof -
  have nc: "\<not> degenerate_link g"
    using update_defined_iff(2) [OF ok, of ext] a by simp
  then show d: "\<forall>i < nat (subdivisionsY g). \<forall>j < nat (subdivisionsX g). node_total ext g i j \<noteq> None"
    unfolding all_defined_iff .
  have "\<exists>g1. accumulate_forces ext g = Some g1 \<and> touched (\<lambda>_ _. True) (with_force ext g) g g1"
    by (rule if_then_holds [OF accumulate_forces_touched [OF ok] d])
  with a show "touched (\<lambda>_ _. True) (with_force ext g) g g'" by auto
qed

lemma accumulate_forces_netForce:
  assumes ok: "grid_ok g" and a: "accumulate_forces ext g = Some g'"
    and i: "i < nat (subdivisionsY g)" and j: "j < nat (subdivisionsX g)"
  shows "\<exists>f. node_total ext g i j = Some f
     \<and> bodies g' ! i ! j = (bodies g ! i ! j)\<lparr>netForce := netForce (bodies g ! i ! j) + f\<rparr>"
proof -
  from accumulate_forces_Some(2) [OF ok a] i j
  obtain f where f: "node_total ext g i j = Some f" by auto
  have "bodies g' ! i ! j = with_force ext g i j (bodies g ! i ! j)"
    by (rule touched_all_nth [OF accumulate_forces_Some(1) [OF ok a] ok i j])
  with f show ?thesis by (simp add: with_force_def)
qed

lemma node_total_ext:
  "node_total ext g i j = map_option (\<lambda>f. f + (if i = 0 then ext else 0)) (node_total 0 g i j)"
  unfolding node_total_def
  by (cases "0 < i"; cases "int i < subdivisionsY g - 1"; cases "0 < j";
      cases "int j < subdivisionsX g - 1")
    (simp_all add: map_option_as_bind split: Option.bind_split)

lemma externalForce_cases:
  "externalForce inp =
     (if mouseButton1 inp then (if leftShift inp then Vec3 0 (- 2) 0 else Vec3 (- 2) 0 0)
      else if mouseButton0 inp then (if leftShift inp then Vec3 0 2 0 else Vec3 2 0 0)
      else Vec3 0 0 0)"
  by (simp add: externalForce_def Let_def)

lemma vlength_axis:
  "vlength (Vec3 a 0 0) = \<bar>a\<bar>" "vlength (Vec3 0 a 0) = \<bar>a\<bar>"
  by (simp_all add: vlength_def)

lemma spring_force_at_rest:
  assumes "position (bodies g ! ni ! nj) - position (bodies g ! i ! j) = d"
    and "in_float_range d" and "vlength d = r"
    and "velocity (bodies g ! i ! j) = 0"
  shows "spring_force g i j ni nj r = Some 0"
  using assms(3) assms(4)
  by (simp add: spring_force_def assms(1) normalize_in_range [OF assms(2)] Let_def
      smul_zero_right smul_zero_left)

lemma node_total_at_rest:
  assumes r: "at_rest g" and rr: "rest_in_range g"
    and i: "i < nat (subdivisionsY g)" and j: "j < nat (subdivisionsX g)"
  shows "node_total 0 g i j = Some 0"
proof -
  have h: "1 / 2 ^ 60 \<le> restHeight g" "restHeight g \<le> 2 ^ 60"
    and w: "1 / 2 ^ 60 \<le> restWidth g" "restWidth g \<le> 2 ^ 60"
    using rr by (simp_all add: rest_in_range_def)
  have "(0::real) < 1 / 2 ^ 60" by simp
  then have hp: "0 < restHeight g" and wp: "0 < restWidth g" using h(1) w(1) by linarith+
  have lh: "vlength (Vec3 0 (restHeight g) 0) = restHeight g"
    "vlength (Vec3 0 (- restHeight g) 0) = restHeight g"
    using hp by (simp_all add: vlength_axis)
  have lw: "vlength (Vec3 (restWidth g) 0 0) = restWidth g"
    "vlength (Vec3 (- restWidth g) 0 0) = restWidth g"
    using wp by (simp_all add: vlength_axis)
  have v: "velocity (bodies g ! i ! j) = 0" using r i j by (simp add: at_rest_def)
  have up: "spring_force g i j (i - 1) j (restHeight g) = Some 0" if "0 < i"
  proof -
    have i': "i - 1 < nat (subdivisionsY g)" "int (i - 1) < subdivisionsY g - 1" "i - 1 + 1 = i"
      using that i by simp_all
    have "position (bodies g ! (i - 1 + 1) ! j) - position (bodies g ! (i - 1) ! j)
            = Vec3 0 (restHeight g) 0"
      using r i'(1) i'(2) j unfolding at_rest_def by blast
    then have "position (bodies g ! i ! j) - position (bodies g ! (i - 1) ! j)
            = Vec3 0 (restHeight g) 0"
      unfolding i'(3) .
    then have "- (position (bodies g ! i ! j) - position (bodies g ! (i - 1) ! j))
            = Vec3 0 (- restHeight g) 0"
      by (simp add: uminus_vec3_def)
    then have d: "position (bodies g ! (i - 1) ! j) - position (bodies g ! i ! j)
            = Vec3 0 (- restHeight g) 0"
      by simp
    show ?thesis
      by (rule spring_force_at_rest [OF d in_float_range_axis(4) [OF h] lh(2) v])
  qed
  have down: "spring_force g i j (i + 1) j (restHeight g) = Some 0"
    if "int i < subdivisionsY g - 1"
  proof -
    have d: "position (bodies g ! (i + 1) ! j) - position (bodies g ! i ! j)
               = Vec3 0 (restHeight g) 0"
      using r i j that unfolding at_rest_def by blast
    show ?thesis
      by (rule spring_force_at_rest [OF d in_float_range_axis(2) [OF h] lh(1) v])
  qed
  have left: "spring_force g i j i (j - 1) (restWidth g) = Some 0" if "0 < j"
  proof -
    have j': "j - 1 < nat (subdivisionsX g)" "int (j - 1) < subdivisionsX g - 1" "j - 1 + 1 = j"
      using that j by simp_all
    have "position (bodies g ! i ! (j - 1 + 1)) - position (bodies g ! i ! (j - 1))
            = Vec3 (restWidth g) 0 0"
      using r j'(1) j'(2) i unfolding at_rest_def by blast
    then have "position (bodies g ! i ! j) - position (bodies g ! i ! (j - 1))
            = Vec3 (restWidth g) 0 0"
      unfolding j'(3) .
    then have "- (position (bodies g ! i ! j) - position (bodies g ! i ! (j - 1)))
            = Vec3 (- restWidth g) 0 0"
      by (simp add: uminus_vec3_def)
    then have d: "position (bodies g ! i ! (j - 1)) - position (bodies g ! i ! j)
            = Vec3 (- restWidth g) 0 0"
      by simp
    show ?thesis
      by (rule spring_force_at_rest [OF d in_float_range_axis(3) [OF w] lw(2) v])
  qed
  have right: "spring_force g i j i (j + 1) (restWidth g) = Some 0"
    if "int j < subdivisionsX g - 1"
  proof -
    have d: "position (bodies g ! i ! (j + 1)) - position (bodies g ! i ! j)
               = Vec3 (restWidth g) 0 0"
      using r i j that unfolding at_rest_def by blast
    show ?thesis
      by (rule spring_force_at_rest [OF d in_float_range_axis(1) [OF w] lw(1) v])
  qed
  have u: "(if 0 < i then spring_force g i j (i - 1) j (restHeight g) else Some 0) = Some 0"
    using up by simp
  have d: "(if int i < subdivisionsY g - 1
            then spring_force g i j (i + 1) j (restHeight g) else Some 0) = Some 0"
    using down by simp
  have l: "(if 0 < j then spring_force g i j i (j - 1) (restWidth g) else Some 0) = Some 0"
    using left by simp
  have r: "(if int j < subdivisionsX g - 1
            then spring_force g i j i (j + 1) (restWidth g) else Some 0) = Some 0"
    using right by simp
  show ?thesis
    unfolding node_total_def u d l r by simp
qed

lemma at_rest_in_range:
  assumes "at_rest g" "rest_in_range g"
  shows "links_in_float_range g"
  unfolding links_in_float_range_def
proof (intro allI impI conjI)
  fix i j
  assume i: "i < nat (subdivisionsY g)" and j: "j < nat (subdivisionsX g)"
  have h: "1 / 2 ^ 60 \<le> restHeight g" "restHeight g \<le> 2 ^ 60"
    and w: "1 / 2 ^ 60 \<le> restWidth g" "restWidth g \<le> 2 ^ 60"
    using assms(2) by (simp_all add: rest_in_range_def)
  show "in_float_range (position (bodies g ! (i + 1) ! j) - position (bodies g ! i ! j))"
    if "int i < subdivisionsY g - 1"
  proof -
    have "position (bodies g ! (i + 1) ! j) - position (bodies g ! i ! j)
            = Vec3 0 (restHeight g) 0"
      using assms(1) i j that unfolding at_rest_def by blast
    then show ?thesis using in_float_range_axis(2) [OF h] by simp
  qed
  show "in_float_range (position (bodies g ! i ! (j + 1)) - position (bodies g ! i ! j))"
    if "int j < subdivisionsX g - 1"
  proof -
    have "position (bodies g ! i ! (j + 1)) - position (bodies g ! i ! j)
            = Vec3 (restWidth g) 0 0"
      using assms(1) i j that unfolding at_rest_def by blast
    then show ?thesis using in_float_range_axis(1) [OF w] by simp
  qed
qed

lemma update_Some:
  assumes ok: "grid_ok g" and u: "update inp dt g = Some g'"
  shows "touched (\<lambda>_ _. True) (stepped (externalForce inp) dt g) g g'"
proof -
  have "\<not> degenerate_link g"
    using update_defined_iff(1) [OF ok, of inp dt] u by simp
  then have d: "\<forall>i < nat (subdivisionsY g). \<forall>j < nat (subdivisionsX g).
             node_total (externalForce inp) g i j \<noteq> None"
    unfolding all_defined_iff .
  have "\<exists>g1. update inp dt g = Some g1
          \<and> touched (\<lambda>_ _. True) (stepped (externalForce inp) dt g) g g1"
    by (rule if_then_holds [OF update_touched [OF ok] d])
  with u show ?thesis by auto
qed

lemma IntegrateLinear_at_rest:
  assumes "velocity b = 0" "netForce b = 0" "netImpulse b = 0"
  shows "position (IntegrateLinear dt b) = position b"
    and "velocity (IntegrateLinear dt b) = 0"
    and "netForce (IntegrateLinear dt b) = 0"
    and "netImpulse (IntegrateLinear dt b) = 0"
  using assms by (simp_all add: IntegrateLinear_def Let_def smul_zero_right)

lemma update_at_rest:
  assumes ok: "grid_ok g" and r: "at_rest g" and rr: "rest_in_range g"
    and e: "externalForce inp = 0"
  shows "\<exists>g'. update inp dt g = Some g' \<and> grid_ok g' \<and> at_rest g' \<and> rest_in_range g'
           \<and> subdivisionsX g' = subdivisionsX g \<and> subdivisionsY g' = subdivisionsY g
           \<and> same_motion g g'"
proof -
  have nc: "\<not> degenerate_link g"
    by (rule in_range_not_degenerate [OF at_rest_in_range [OF r rr]])
  then obtain g' where u: "update inp dt g = Some g'"
    using update_defined_iff(1) [OF ok, of inp dt] by auto
  have t: "touched (\<lambda>_ _. True) (stepped 0 dt g) g g'"
    using update_Some [OF ok u] by (simp add: e)
  have ok': "grid_ok g'" by (rule touched_grid_ok [OF t ok])
  note sc = touched_scalars [OF t]
  have node: "position (bodies g' ! i ! j) = position (bodies g ! i ! j)
        \<and> velocity (bodies g' ! i ! j) = 0 \<and> netForce (bodies g' ! i ! j) = 0
        \<and> netImpulse (bodies g' ! i ! j) = 0"
    if i: "i < nat (subdivisionsY g)" and j: "j < nat (subdivisionsX g)" for i j
  proof -
    have b: "bodies g' ! i ! j = stepped 0 dt g i j (bodies g ! i ! j)"
      by (rule touched_all_nth [OF t ok i j])
    have f: "with_force 0 g i j (bodies g ! i ! j) = bodies g ! i ! j"
      by (simp add: with_force_def node_total_at_rest [OF r rr i j])
    have z: "velocity (bodies g ! i ! j) = 0" "netForce (bodies g ! i ! j) = 0"
      "netImpulse (bodies g ! i ! j) = 0"
      using r i j by (simp_all add: at_rest_def)
    show ?thesis
      unfolding b stepped_def f using IntegrateLinear_at_rest [OF z, of dt] by simp
  qed
  have sm: "same_motion g g'"
    using node r by (simp add: same_motion_def at_rest_def)
  have ar: "at_rest g'"
    unfolding at_rest_def
  proof (intro allI impI conjI)
    fix i j
    assume i: "i < nat (subdivisionsY g')" and j: "j < nat (subdivisionsX g')"
    then have i0: "i < nat (subdivisionsY g)" and j0: "j < nat (subdivisionsX g)"
      using sc by simp_all
    show "velocity (bodies g' ! i ! j) = 0" "netForce (bodies g' ! i ! j) = 0"
      "netImpulse (bodies g' ! i ! j) = 0"
      using node [OF i0 j0] by simp_all
    show "position (bodies g' ! (i + 1) ! j) - position (bodies g' ! i ! j)
            = Vec3 0 (restHeight g') 0"
      if "int i < subdivisionsY g' - 1"
    proof -
      have i1: "i + 1 < nat (subdivisionsY g)" and lt: "int i < subdivisionsY g - 1"
        using that sc by simp_all
      have "position (bodies g ! (i + 1) ! j) - position (bodies g ! i ! j)
              = Vec3 0 (restHeight g) 0"
        using r i0 j0 lt unfolding at_rest_def by blast
      then show ?thesis using node [OF i0 j0] node [OF i1 j0] sc by simp
    qed
    show "position (bodies g' ! i ! (j + 1)) - position (bodies g' ! i ! j)
            = Vec3 (restWidth g') 0 0"
      if "int j < subdivisionsX g' - 1"
    proof -
      have j1: "j + 1 < nat (subdivisionsX g)" and lt: "int j < subdivisionsX g - 1"
        using that sc by simp_all
      have "position (bodies g ! i ! (j + 1)) - position (bodies g ! i ! j)
              = Vec3 (restWidth g) 0 0"
        using r i0 j0 lt unfolding at_rest_def by blast
      then show ?thesis using node [OF i0 j0] node [OF i0 j1] sc by simp
    qed
  qed
  have rr': "rest_in_range g'" using rr sc by (simp add: rest_in_range_def)
  show ?thesis using u ok' ar rr' sc sm by simp
qed

lemma same_motion_trans:
  "same_motion g g1 \<Longrightarrow> subdivisionsX g1 = subdivisionsX g \<Longrightarrow> subdivisionsY g1 = subdivisionsY g
     \<Longrightarrow> same_motion g1 g2 \<Longrightarrow> same_motion g g2"
  by (simp add: same_motion_def)

lemma steps_at_rest:
  assumes ok: "grid_ok g" and r: "at_rest g" and rr: "rest_in_range g"
    and e: "externalForce inp = 0"
  shows "\<exists>g'. ((\<lambda>b. b \<bind> update inp dt) ^^ n) (Some g) = Some g'
           \<and> grid_ok g' \<and> at_rest g' \<and> rest_in_range g'
           \<and> subdivisionsX g' = subdivisionsX g \<and> subdivisionsY g' = subdivisionsY g
           \<and> same_motion g g'"
proof (induction n)
  case 0
  show ?case using ok r rr by (simp add: same_motion_def)
next
  case (Suc n)
  then obtain g1 where s: "((\<lambda>b. b \<bind> update inp dt) ^^ n) (Some g) = Some g1"
    and p: "grid_ok g1" "at_rest g1" "rest_in_range g1"
    and d: "subdivisionsX g1 = subdivisionsX g" "subdivisionsY g1 = subdivisionsY g"
    and m: "same_motion g g1"
    by blast
  from update_at_rest [OF p e, of dt]
  obtain g2 where u: "update inp dt g1 = Some g2"
    and p2: "grid_ok g2" "at_rest g2" "rest_in_range g2"
    and d2: "subdivisionsX g2 = subdivisionsX g1" "subdivisionsY g2 = subdivisionsY g1"
    and m2: "same_motion g1 g2"
    by blast
  have "same_motion g g2" by (rule same_motion_trans [OF m d m2])
  then show ?case using s u p2 d d2 by simp
qed

lemma lattice_at_rest: "at_rest (lattice width height subX subY coeff damp)"
  unfolding at_rest_def lattice_fields
proof (intro allI impI conjI)
  fix i j
  assume i: "i < nat subY" and j: "j < nat subX"
  let ?g = "lattice width height subX subY coeff damp"
  show "velocity (bodies ?g ! i ! j) = 0" "netForce (bodies ?g ! i ! j) = 0"
    "netImpulse (bodies ?g ! i ! j) = 0"
    using i j by (simp_all add: lattice_node RigidBody_ctor_def zero_vec3_def)
  show "position (bodies ?g ! (i + 1) ! j) - position (bodies ?g ! i ! j)
          = Vec3 0 (height / real_of_int subY) 0"
    if "int i < subY - 1"
  proof -
    have i1: "i + 1 < nat subY" using that by linarith
    show ?thesis by (rule lattice_up [OF i1 j])
  qed
  show "position (bodies ?g ! i ! (j + 1)) - position (bodies ?g ! i ! j)
          = Vec3 (width / real_of_int subX) 0 0"
    if "int j < subX - 1"
  proof -
    have j1: "j + 1 < nat subX" using that by linarith
    show ?thesis by (rule lattice_right [OF i j1])
  qed
qed

lemma sum_list_vec3:
  "sum_list vs = Vec3 (sum_list (map vx vs)) (sum_list (map vy vs)) (sum_list (map vz vs))"
  by (induction vs) (simp_all add: zero_vec3_def plus_vec3_def)

lemma sum_list_progression:
  "sum_list (map (\<lambda>k. a + s * real k) [0..<n]) = real n * a + s * (real n * (real n - 1) / 2)"
  by (induction n) (simp_all add: field_simps)

lemma sum_list_const: "sum_list (map (\<lambda>k. c) [0..<n]) = real n * (c::real)"
  by (induction n) (simp_all add: algebra_simps)

lemma sum_list_concat_map:
  "sum_list (concat (map f xs)) = sum_list (map (\<lambda>x. sum_list (f x)) xs)"
  for f :: "'a \<Rightarrow> real list"
  by (induction xs) simp_all

lemma lattice_positions:
  "map position (concat (bodies (lattice width height subX subY coeff damp))) =
     concat (map (\<lambda>i. map (\<lambda>j. Vec3 (- width / 2 + width / real_of_int subX * real j)
                                   (- height / 2 + height / real_of_int subY * real i) 0)
                     [0..<nat subX])
               [0..<nat subY])"
  by (simp add: lattice_def map_concat comp_def RigidBody_ctor_def)

lemma length_concat_lattice:
  "length (concat (bodies (lattice width height subX subY coeff damp))) = nat subX * nat subY"
proof -
  have "length (concat (map (\<lambda>i. map (f i) [0..<n]) [0..<m])) = n * m"
    for f :: "nat \<Rightarrow> nat \<Rightarrow> RigidBody" and n m
    by (induction m) simp_all
  then show ?thesis by (simp add: lattice_def)
qed

lemma lattice_sum_positions:
  "sum_list (map position (concat (bodies (lattice width height subX subY coeff damp)))) =
     Vec3 (real (nat subY) * (real (nat subX) * (- width / 2)
              + width / real_of_int subX * (real (nat subX) * (real (nat subX) - 1) / 2)))
          (real (nat subX) * (real (nat subY) * (- height / 2)
              + height / real_of_int subY * (real (nat subY) * (real (nat subY) - 1) / 2)))
          0"
proof -
  let ?n = "nat subX" and ?m = "nat subY"
  let ?a = "- width / 2" and ?s = "width / real_of_int subX"
  let ?b = "- height / 2" and ?t = "height / real_of_int subY"
  let ?ps = "concat (map (\<lambda>i. map (\<lambda>j. Vec3 (?a + ?s * real j) (?b + ?t * real i) 0) [0..<?n])
               [0..<?m])"
  have x1: "sum_list (map vx ?ps)
      = sum_list (map (\<lambda>i. sum_list (map (\<lambda>j. ?a + ?s * real j) [0..<?n])) [0..<?m])"
    by (simp add: map_concat comp_def sum_list_concat_map)
  have x: "sum_list (map vx ?ps) = real ?m * (real ?n * ?a + ?s * (real ?n * (real ?n - 1) / 2))"
    unfolding x1 sum_list_progression sum_list_const by (rule refl)
  have y: "sum_list (map vy ?ps) = real ?n * (real ?m * ?b + ?t * (real ?m * (real ?m - 1) / 2))"
  proof -
    have "sum_list (map vy ?ps)
        = sum_list (map (\<lambda>i. sum_list (map (\<lambda>j. ?b + ?t * real i) [0..<?n])) [0..<?m])"
      by (simp add: map_concat comp_def sum_list_concat_map)
    also have "\<dots> = sum_list (map (\<lambda>i. real ?n * (?b + ?t * real i)) [0..<?m])"
      unfolding sum_list_const by (rule refl)
    also have "\<dots> = sum_list (map (\<lambda>i. real ?n * ?b + (real ?n * ?t) * real i) [0..<?m])"
      by (simp add: algebra_simps)
    also have "\<dots> = real ?m * (real ?n * ?b) + (real ?n * ?t) * (real ?m * (real ?m - 1) / 2)"
      by (rule sum_list_progression)
    finally show ?thesis by (simp add: algebra_simps)
  qed
  have z: "sum_list (map vz ?ps) = 0"
    by (simp add: map_concat comp_def sum_list_concat_map sum_list_const)
  show ?thesis
    unfolding lattice_positions by (subst sum_list_vec3) (simp only: x y z)
qed

lemma lattice_centroid:
  assumes "0 < subX" "0 < subY"
  shows "centroid (lattice width height subX subY coeff damp) =
     Vec3 (- width / (2 * real_of_int subX)) (- height / (2 * real_of_int subY)) 0"
proof -
  have n: "real (nat subX) = real_of_int subX" "real (nat subY) = real_of_int subY"
    using assms by simp_all
  have p: "0 < real_of_int subX" "0 < real_of_int subY" using assms by simp_all
  show ?thesis
    unfolding centroid_def length_concat_lattice lattice_sum_positions
    using p by (simp add: smul_def n field_simps)
qed

lemma stepped_mass:
  "mass (stepped ext dt g i j b) = mass b" "inverseMass (stepped ext dt g i j b) = inverseMass b"
  by (simp_all add: stepped_def with_force_def IntegrateLinear_def Let_def)

text \<open>
  The \<^verbatim>\<open>double\<close> arithmetic of two runs of the scheduler, evaluated: with step \<open>0.01\<close>
  and reports \<open>0.005\<close>, \<open>0.011\<close>, \<open>0.040\<close>; and with the program's step \<open>0.012\<close> and
  reports \<open>0.0145\<close>, \<open>10.0145\<close>.
\<close>

lemma dbl_a0: "round_double (1 / 100) = (5764607523034235 / 576460752303423488)"
  by (rule round_double_eval [where e = "- 7" and n = "5764607523034235"])
    (simp_all add: pow2_def round_even_def)

lemma dbl_a1: "round_double (5764607523034235 / 576460752303423488) = (5764607523034235 / 576460752303423488)"
  by (rule round_double_eval [where e = "- 7" and n = "5764607523034235"])
    (simp_all add: pow2_def round_even_def)

lemma dbl_a2: "round_double (1 / 200) = (5764607523034235 / 1152921504606846976)"
  by (rule round_double_eval [where e = "- 8" and n = "5764607523034235"])
    (simp_all add: pow2_def round_even_def)

lemma dbl_a3: "round_double (5764607523034235 / 1152921504606846976) = (5764607523034235 / 1152921504606846976)"
  by (rule round_double_eval [where e = "- 8" and n = "5764607523034235"])
    (simp_all add: pow2_def round_even_def)

lemma dbl_a4: "round_double (11 / 1000) = (3170534137668829 / 288230376151711744)"
  by (rule round_double_eval [where e = "- 7" and n = "6341068275337658"])
    (simp_all add: pow2_def round_even_def)

lemma dbl_a5: "round_double (3170534137668829 / 288230376151711744) = (3170534137668829 / 288230376151711744)"
  by (rule round_double_eval [where e = "- 7" and n = "6341068275337658"])
    (simp_all add: pow2_def round_even_def)

lemma dbl_a6: "round_double (576460752303423 / 576460752303423488) = (576460752303423 / 576460752303423488)"
  by (rule round_double_eval [where e = "- 10" and n = "4611686018427384"])
    (simp_all add: pow2_def round_even_def)

lemma dbl_a7: "round_double (1 / 25) = (5764607523034235 / 144115188075855872)"
  by (rule round_double_eval [where e = "- 5" and n = "5764607523034235"])
    (simp_all add: pow2_def round_even_def)

lemma dbl_a8: "round_double (8358680908399641 / 288230376151711744) = (8358680908399641 / 288230376151711744)"
  by (rule round_double_eval [where e = "- 6" and n = "8358680908399641"])
    (simp_all add: pow2_def round_even_def)

lemma dbl_a9: "round_double (17293822569102705 / 576460752303423488) = (1080863910568919 / 36028797018963968)"
  by (rule round_double_eval [where e = "- 6" and n = "8646911284551352"])
    (simp_all add: pow2_def round_even_def)

lemma dbl_a10: "round_double (11529215046068469 / 576460752303423488) = (2882303761517117 / 144115188075855872)"
  by (rule round_double_eval [where e = "- 6" and n = "5764607523034234"])
    (simp_all add: pow2_def round_even_def)

lemma dbl_a11: "round_double (5764607523034233 / 576460752303423488) = (5764607523034233 / 576460752303423488)"
  by (rule round_double_eval [where e = "- 7" and n = "5764607523034233"])
    (simp_all add: pow2_def round_even_def)

lemmas dbl_a = dbl_a0 dbl_a1 dbl_a2 dbl_a3 dbl_a4 dbl_a5 dbl_a6 dbl_a7 dbl_a8 dbl_a9 dbl_a10 dbl_a11































section \<open>The claims\<close>

text \<open>
  C2. For every node and time step \<open>dt\<close>, \<open>IntegrateLinear dt\<close> sets the acceleration
  to \<open>inverseMass * netForce\<close>, adds \<open>velocity * dt + 0.5 * acceleration * dt^2\<close> to the
  position and \<open>acceleration * dt + inverseMass * netImpulse\<close> to the velocity, both with
  the acceleration of the force accumulated before the call and the velocity before the
  call, and leaves \<open>netForce\<close> and \<open>netImpulse\<close> zero; mass and inverse mass stay.
  The impulse is consumed once: a second call right after adds no force and no impulse
  (the velocity stays, the position moves by \<open>velocity * dt\<close> alone). So after a
  step of the grid every node has \<open>netForce\<close> and \<open>netImpulse\<close> zero: nothing is carried
  over to the next step.
\<close>

theorem IntegrateLinear_steps:
  "acceleration (IntegrateLinear dt b) = smul (inverseMass b) (netForce b)
   \<and> position (IntegrateLinear dt b)
       = position b + (smul dt (velocity b)
           + smul (dt ^ 2) (smul 0.5 (smul (inverseMass b) (netForce b))))
   \<and> velocity (IntegrateLinear dt b)
       = velocity b + (smul dt (smul (inverseMass b) (netForce b))
           + smul (inverseMass b) (netImpulse b))
   \<and> netForce (IntegrateLinear dt b) = 0
   \<and> netImpulse (IntegrateLinear dt b) = 0
   \<and> mass (IntegrateLinear dt b) = mass b
   \<and> inverseMass (IntegrateLinear dt b) = inverseMass b
   \<and> velocity (IntegrateLinear dt' (IntegrateLinear dt b)) = velocity (IntegrateLinear dt b)
   \<and> position (IntegrateLinear dt' (IntegrateLinear dt b))
       = position (IntegrateLinear dt b) + smul dt' (velocity (IntegrateLinear dt b))
   \<and> (grid_ok g \<and> update inp dt g = Some g' \<longrightarrow>
        (\<forall>i < nat (subdivisionsY g). \<forall>j < nat (subdivisionsX g).
           netForce (bodies g' ! i ! j) = 0 \<and> netImpulse (bodies g' ! i ! j) = 0))"
proof -
  have one: "acceleration (IntegrateLinear dt b) = smul (inverseMass b) (netForce b)
     \<and> position (IntegrateLinear dt b)
       = position b + (smul dt (velocity b)
           + smul (dt ^ 2) (smul 0.5 (smul (inverseMass b) (netForce b))))
     \<and> velocity (IntegrateLinear dt b)
       = velocity b + (smul dt (smul (inverseMass b) (netForce b))
           + smul (inverseMass b) (netImpulse b))
     \<and> netForce (IntegrateLinear dt b) = 0
     \<and> netImpulse (IntegrateLinear dt b) = 0
     \<and> mass (IntegrateLinear dt b) = mass b
     \<and> inverseMass (IntegrateLinear dt b) = inverseMass b"
    by (simp add: IntegrateLinear_def Let_def)
  have zero: "netForce (IntegrateLinear dt c) = 0 \<and> netImpulse (IntegrateLinear dt c) = 0" for c
    by (simp add: IntegrateLinear_def Let_def)
  have two: "velocity (IntegrateLinear dt' (IntegrateLinear dt b)) = velocity (IntegrateLinear dt b)
     \<and> position (IntegrateLinear dt' (IntegrateLinear dt b))
       = position (IntegrateLinear dt b) + smul dt' (velocity (IntegrateLinear dt b))"
    using zero [of b] by (simp add: IntegrateLinear_def [of dt'] Let_def smul_zero_right)
  have step: "grid_ok g \<and> update inp dt g = Some g' \<longrightarrow>
        (\<forall>i < nat (subdivisionsY g). \<forall>j < nat (subdivisionsX g).
           netForce (bodies g' ! i ! j) = 0 \<and> netImpulse (bodies g' ! i ! j) = 0)"
  proof (intro impI allI)
    fix i j
    assume a: "grid_ok g \<and> update inp dt g = Some g'"
      and i: "i < nat (subdivisionsY g)" and j: "j < nat (subdivisionsX g)"
    have t: "touched (\<lambda>_ _. True) (stepped (externalForce inp) dt g) g g'"
      using a by (intro update_Some) simp_all
    have "bodies g' ! i ! j = stepped (externalForce inp) dt g i j (bodies g ! i ! j)"
      using a by (intro touched_all_nth [OF t _ i j]) simp
    then show "netForce (bodies g' ! i ! j) = 0 \<and> netImpulse (bodies g' ! i ! j) = 0"
      unfolding stepped_def using zero by simp
  qed
  from one two step show ?thesis by (intro conjI) blast+
qed

theorem IntegrateLinear_steps_witness:
  "\<exists>g'. update \<lparr>leftShift = False, mouseButton0 = True, mouseButton1 = False\<rparr> (1 / 100)
            (lattice (3 / 2) (3 / 2) 3 3 25 (1 / 2)) = Some g'
     \<and> netForce (bodies g' ! 0 ! 0) = 0 \<and> netImpulse (bodies g' ! 0 ! 0) = 0"
proof -
  let ?g = "lattice (3 / 2) (3 / 2) 3 3 25 (1 / 2)"
  let ?inp = "\<lparr>leftShift = False, mouseButton0 = True, mouseButton1 = False\<rparr>"
  have ok: "grid_ok ?g" by (rule lattice_ok)
  have "\<not> degenerate_link ?g" by (rule lattice_defined) simp_all
  then obtain g' where u: "update ?inp (1 / 100) ?g = Some g'"
    using update_defined_iff(1) [OF ok, of ?inp "1 / 100"] by auto
  have p: "(0::nat) < nat (subdivisionsY ?g)" "(0::nat) < nat (subdivisionsX ?g)" by simp_all
  note s = IntegrateLinear_steps [where g = ?g and inp = ?inp and dt = "1 / 100" and g' = g'
      and b = RigidBody_default and dt' = "1 / 100"]
  have "netForce (bodies g' ! 0 ! 0) = 0 \<and> netImpulse (bodies g' ! 0 ! 0) = 0"
    using s ok u p by blast
  with u show ?thesis by blast
qed

text \<open>
  C3, as the code has it. In a frame that reports the time \<open>t\<close>, with \<open>dt\<close> the
  \<^verbatim>\<open>double\<close> difference \<open>t - timebase\<close>: if \<open>dt\<close> is at most the step size (smaller or
  equal: the test of the source is \<^verbatim>\<open>dt > physicsStep\<close>), no physics step occurs and
  \<open>timebase\<close> and \<open>accumulator\<close> stay; otherwise \<open>timebase := t\<close>, \<open>dt\<close> is clamped to
  \<open>0.25\<close> and added to the accumulator, and steps of exactly \<open>physicsStep\<close> are performed
  while the accumulator is at least \<open>physicsStep\<close>, each subtracting \<open>physicsStep\<close>: \<open>n\<close>
  steps when the loop makes \<open>n\<close> turns, every sum and difference rounded to \<^verbatim>\<open>double\<close>.
  Where that arithmetic is exact (the reported times, the step and the accumulator all
  on a grid of multiples of \<open>2^-k\<close>), over any run of frames that starts with an
  accumulator in \<open>[0, physicsStep)\<close> the number of steps is the floor of (accumulator +
  the sum of the clamped deltas) / \<open>physicsStep\<close> and the accumulator left is the
  remainder: no time is lost but by the clamp. The witness is a run of the shape of the
  claim's on such a grid: step \<open>1/128\<close>, reports advancing by \<open>1/256\<close>, \<open>2/256\<close>,
  \<open>7/256\<close>: five steps, nothing left.
\<close>

theorem checkTime_frames:
  "(round_double (t - timebase w) \<le> physicsStep w \<longrightarrow> checkTime inp t w = Some (w\<lparr>time := t\<rparr>))
   \<and> (physicsStep w < round_double (t - timebase w)
        \<and> turns n (physicsStep w)
            (round_double (accumulator w + min (round_double (t - timebase w)) 0.25)) \<longrightarrow>
       checkTime inp t w =
         Some (drained inp n
           (w\<lparr>time := t, timebase := t,
              accumulator :=
                round_double (accumulator w + min (round_double (t - timebase w)) 0.25)\<rparr>)))
   \<and> (2 \<le> k \<and> k \<le> 1074 \<and> list_all (on_grid k) ts
        \<and> on_grid k (physicsStep w) \<and> on_grid k (timebase w) \<and> on_grid k (accumulator w)
        \<and> 0 < physicsStep w \<and> 0 \<le> accumulator w \<and> accumulator w < physicsStep w \<longrightarrow>
         (\<exists>w'. frames inp ts w = Some w'
            \<and> updates w' = updates w
                 + nat \<lfloor>(accumulator w + clamped_total (physicsStep w) (timebase w) ts)
                       / physicsStep w\<rfloor>
            \<and> accumulator w' = accumulator w + clamped_total (physicsStep w) (timebase w) ts
                 - real (nat \<lfloor>(accumulator w + clamped_total (physicsStep w) (timebase w) ts)
                               / physicsStep w\<rfloor>) * physicsStep w))"
proof (intro conjI impI)
  show "checkTime inp t w = Some (w\<lparr>time := t\<rparr>)"
    if "round_double (t - timebase w) \<le> physicsStep w"
    using that by (rule checkTime_skip)
  show "checkTime inp t w =
         Some (drained inp n
           (w\<lparr>time := t, timebase := t,
              accumulator :=
                round_double (accumulator w + min (round_double (t - timebase w)) 0.25)\<rparr>))"
    if "physicsStep w < round_double (t - timebase w)
        \<and> turns n (physicsStep w)
            (round_double (accumulator w + min (round_double (t - timebase w)) 0.25))"
    using that by (intro checkTime_run) simp_all
  show "\<exists>w'. frames inp ts w = Some w'
            \<and> updates w' = updates w
                 + nat \<lfloor>(accumulator w + clamped_total (physicsStep w) (timebase w) ts)
                       / physicsStep w\<rfloor>
            \<and> accumulator w' = accumulator w + clamped_total (physicsStep w) (timebase w) ts
                 - real (nat \<lfloor>(accumulator w + clamped_total (physicsStep w) (timebase w) ts)
                               / physicsStep w\<rfloor>) * physicsStep w"
    if a: "2 \<le> k \<and> k \<le> 1074 \<and> list_all (on_grid k) ts
        \<and> on_grid k (physicsStep w) \<and> on_grid k (timebase w) \<and> on_grid k (accumulator w)
        \<and> 0 < physicsStep w \<and> 0 \<le> accumulator w \<and> accumulator w < physicsStep w"
  proof -
    from a have k: "2 \<le> k" "k \<le> 1074" by simp_all
    from frames_total [OF k, of ts w inp] a show ?thesis by blast
  qed
qed

theorem checkTime_frames_witness:
  "checkTime no_input (1 / 256) (initial_world\<lparr>physicsStep := 1 / 128\<rparr>)
     = Some (initial_world\<lparr>physicsStep := 1 / 128, time := 1 / 256\<rparr>)
   \<and> checkTime no_input (3 / 256) (initial_world\<lparr>physicsStep := 1 / 128\<rparr>)
       = Some (drained no_input 1
           (initial_world\<lparr>physicsStep := 1 / 128, time := 3 / 256, timebase := 3 / 256,
              accumulator := 3 / 256\<rparr>))
   \<and> accumulator (drained no_input 1
           (initial_world\<lparr>physicsStep := 1 / 128, time := 3 / 256, timebase := 3 / 256,
              accumulator := 3 / 256\<rparr>)) = 1 / 256
   \<and> (\<exists>w'. frames no_input [1 / 256, 3 / 256, 5 / 128] (initial_world\<lparr>physicsStep := 1 / 128\<rparr>)
              = Some w'
        \<and> clamped_total (1 / 128) 0 [1 / 256, 3 / 256, 5 / 128] = 5 / 128
        \<and> updates w' = 5 \<and> accumulator w' = 0)"
proof -
  let ?w0 = "initial_world\<lparr>physicsStep := 1 / 128\<rparr>"
  let ?ts = "[1 / 256, 3 / 256, 5 / 128] :: real list"
  have e1: "round_double (1 / 256) = 1 / 256"
    by (rule round_double_exact [of _ 1 "- 8"]) (simp_all add: pow2_def)
  have e3: "round_double (3 / 256) = 3 / 256"
    by (rule round_double_exact [of _ 3 "- 8"]) (simp_all add: pow2_def)
  have e7: "round_double (7 / 256) = 7 / 256"
    by (rule round_double_exact [of _ 7 "- 8"]) (simp_all add: pow2_def)
  note e = e1 e3 e7
  note c = checkTime_frames [where w = ?w0 and inp = no_input and k = 8 and ts = ?ts]
  have s1: "round_double (1 / 256 - timebase ?w0) \<le> physicsStep ?w0"
    by (simp add: initial_world_def e)
  have first: "checkTime no_input (1 / 256) ?w0 = Some (?w0\<lparr>time := 1 / 256\<rparr>)"
    using c [where t = "1 / 256" and n = 0, THEN conjunct1, rule_format, OF s1] .
  have s2: "physicsStep ?w0 < round_double (3 / 256 - timebase ?w0)
        \<and> turns 1 (physicsStep ?w0)
            (round_double (accumulator ?w0 + min (round_double (3 / 256 - timebase ?w0)) 0.25))"
    by (simp add: initial_world_def e)
  have av: "round_double (accumulator ?w0 + min (round_double (3 / 256 - timebase ?w0)) 0.25)
      = 3 / 256"
    by (simp add: initial_world_def e)
  have second: "checkTime no_input (3 / 256) ?w0
       = Some (drained no_input 1
           (?w0\<lparr>time := 3 / 256, timebase := 3 / 256, accumulator := 3 / 256\<rparr>))"
    using c [where t = "3 / 256" and n = 1, THEN conjunct2, THEN conjunct1, rule_format, OF s2]
    unfolding av .
  have left: "accumulator (drained no_input 1
           (?w0\<lparr>time := 3 / 256, timebase := 3 / 256, accumulator := 3 / 256\<rparr>)) = 1 / 256"
    by (simp add: e)
  have pre: "2 \<le> (8::nat) \<and> (8::nat) \<le> 1074 \<and> list_all (on_grid 8) ?ts
        \<and> on_grid 8 (physicsStep ?w0) \<and> on_grid 8 (timebase ?w0) \<and> on_grid 8 (accumulator ?w0)
        \<and> 0 < physicsStep ?w0 \<and> 0 \<le> accumulator ?w0 \<and> accumulator ?w0 < physicsStep ?w0"
    by (simp add: initial_world_def on_grid_def)
  have ct: "clamped_total (1 / 128) 0 ?ts = 5 / 128" by (simp add: e)
  have ct': "clamped_total (physicsStep ?w0) (timebase ?w0) ?ts = 5 / 128"
    by (simp add: initial_world_def e)
  from c [where t = 0 and n = 0, THEN conjunct2, THEN conjunct2, rule_format, OF pre]
  obtain w' where fr: "frames no_input ?ts ?w0 = Some w'"
    and u: "updates w' = updates ?w0
                 + nat \<lfloor>(accumulator ?w0 + clamped_total (physicsStep ?w0) (timebase ?w0) ?ts)
                       / physicsStep ?w0\<rfloor>"
    and a: "accumulator w' = accumulator ?w0 + clamped_total (physicsStep ?w0) (timebase ?w0) ?ts
                 - real (nat \<lfloor>(accumulator ?w0 + clamped_total (physicsStep ?w0) (timebase ?w0) ?ts)
                               / physicsStep ?w0\<rfloor>) * physicsStep ?w0"
    by blast
  have "updates w' = 5" unfolding u ct' by (simp add: initial_world_def)
  moreover have "accumulator w' = 0" unfolding a ct' by (simp add: initial_world_def)
  ultimately have "\<exists>w'. frames no_input ?ts ?w0 = Some w'
        \<and> clamped_total (1 / 128) 0 ?ts = 5 / 128 \<and> updates w' = 5 \<and> accumulator w' = 0"
    using fr ct by blast
  with first second left show ?thesis by (intro conjI)
qed

text \<open>
  C3 as stated fails where \<open>dt\<close> equals the step size: \<open>dt\<close> is not smaller than the
  step, and the frame performs no step and leaves \<open>timebase\<close> where it was. It fails as
  well on its own run: with the \<^verbatim>\<open>double\<close>s nearest to \<open>0.01\<close> and to the reported times
  \<open>0.005\<close>, \<open>0.011\<close>, \<open>0.040\<close>, the sum of the clamped deltas is exactly four steps, yet the
  rounded sum in the accumulator falls short of that, and the run performs three steps
  and leaves an accumulator just below one step, not zero.
\<close>

theorem checkTime_equal_step_counterexample:
  "checkTime no_input (round_double (1 / 100)) (initial_world\<lparr>physicsStep := round_double (1 / 100)\<rparr>)
     = Some (initial_world\<lparr>physicsStep := round_double (1 / 100), time := round_double (1 / 100)\<rparr>)
   \<and> updates (initial_world\<lparr>physicsStep := round_double (1 / 100), time := round_double (1 / 100)\<rparr>)
       = updates initial_world
   \<and> timebase (initial_world\<lparr>physicsStep := round_double (1 / 100), time := round_double (1 / 100)\<rparr>)
       = 0
   \<and> \<not> round_double (round_double (1 / 100)
            - timebase (initial_world\<lparr>physicsStep := round_double (1 / 100)\<rparr>))
        < physicsStep (initial_world\<lparr>physicsStep := round_double (1 / 100)\<rparr>)
   \<and> (\<exists>w'. frames no_input [round_double (1 / 200), round_double (11 / 1000), round_double (1 / 25)]
              (initial_world\<lparr>physicsStep := round_double (1 / 100)\<rparr>) = Some w'
        \<and> clamped_total (round_double (1 / 100)) 0
             [round_double (1 / 200), round_double (11 / 1000), round_double (1 / 25)]
            = 4 * round_double (1 / 100)
        \<and> updates w' = 3
        \<and> accumulator w' = 5764607523034233 / 576460752303423488
        \<and> physicsStep w' - accumulator w' = 1 / 2 ^ 58)"
proof -
  define w0 where "w0 = initial_world\<lparr>physicsStep := round_double (1 / 100)\<rparr>"
  have f_w0: "physicsStep w0 = (5764607523034235 / 576460752303423488)" "timebase w0 = 0" "accumulator w0 = 0" "updates w0 = 0"
    by (simp_all add: w0_def initial_world_def dbl_a)
  have s_w1: "round_double (round_double (1 / 200) - timebase w0) \<le> physicsStep w0"
    by (simp add: f_w0 dbl_a)
  define w1 where "w1 = w0\<lparr>time := round_double (1 / 200)\<rparr>"
  have c_w1: "checkTime no_input (round_double (1 / 200)) w0 = Some w1"
    unfolding w1_def by (rule checkTime_skip [OF s_w1])
  have f_w1: "physicsStep w1 = (5764607523034235 / 576460752303423488)" "timebase w1 = 0" "accumulator w1 = 0" "updates w1 = 0"
    by (simp_all add: w1_def f_w0)
  have r_w2: "physicsStep w1 < round_double (round_double (11 / 1000) - timebase w1)"
    by (simp add: f_w1 dbl_a)
  have a_w2: "round_double (accumulator w1 + min (round_double (round_double (11 / 1000) - timebase w1)) 0.25) = (3170534137668829 / 288230376151711744)"
    by (simp add: f_w1 dbl_a)
  have t_w2: "turns (Suc (0)) (physicsStep w1) (round_double (accumulator w1 + min (round_double (round_double (11 / 1000) - timebase w1)) 0.25))"
    unfolding a_w2 by (simp add: f_w1 dbl_a)
  define w2 where "w2 = drained no_input (Suc (0)) (w1\<lparr>time := round_double (11 / 1000), timebase := round_double (11 / 1000), accumulator := round_double (accumulator w1 + min (round_double (round_double (11 / 1000) - timebase w1)) 0.25)\<rparr>)"
  have c_w2: "checkTime no_input (round_double (11 / 1000)) w1 = Some w2"
    unfolding w2_def by (rule checkTime_run [OF r_w2 t_w2])
  have f_w2: "physicsStep w2 = (5764607523034235 / 576460752303423488)" "timebase w2 = (3170534137668829 / 288230376151711744)" "accumulator w2 = (576460752303423 / 576460752303423488)" "updates w2 = 1"
    unfolding w2_def drained_fields a_w2 by (simp_all add: f_w1 dbl_a)
  have r_w3: "physicsStep w2 < round_double (round_double (1 / 25) - timebase w2)"
    by (simp add: f_w2 dbl_a)
  have a_w3: "round_double (accumulator w2 + min (round_double (round_double (1 / 25) - timebase w2)) 0.25) = (1080863910568919 / 36028797018963968)"
    by (simp add: f_w2 dbl_a)
  have t_w3: "turns (Suc (Suc (0))) (physicsStep w2) (round_double (accumulator w2 + min (round_double (round_double (1 / 25) - timebase w2)) 0.25))"
    unfolding a_w3 by (simp add: f_w2 dbl_a)
  define w3 where "w3 = drained no_input (Suc (Suc (0))) (w2\<lparr>time := round_double (1 / 25), timebase := round_double (1 / 25), accumulator := round_double (accumulator w2 + min (round_double (round_double (1 / 25) - timebase w2)) 0.25)\<rparr>)"
  have c_w3: "checkTime no_input (round_double (1 / 25)) w2 = Some w3"
    unfolding w3_def by (rule checkTime_run [OF r_w3 t_w3])
  have f_w3: "physicsStep w3 = (5764607523034235 / 576460752303423488)" "timebase w3 = (5764607523034235 / 144115188075855872)" "accumulator w3 = (5764607523034233 / 576460752303423488)" "updates w3 = 3"
    unfolding w3_def drained_fields a_w3 by (simp_all add: f_w2 dbl_a)
  have eq: "round_double (round_double (1 / 100) - timebase w0) \<le> physicsStep w0"
    by (simp add: f_w0 dbl_a)
  have c0: "checkTime no_input (round_double (1 / 100)) w0 = Some (w0\<lparr>time := round_double (1 / 100)\<rparr>)"
    by (rule checkTime_skip [OF eq])
  have n0: "\<not> round_double (round_double (1 / 100) - timebase w0) < physicsStep w0"
    by (simp add: f_w0 dbl_a)
  have fr: "frames no_input [round_double (1 / 200), round_double (11 / 1000), round_double (1 / 25)] w0
      = Some w3"
    by (simp add: c_w1 c_w2 c_w3)
  have ct: "clamped_total (round_double (1 / 100)) 0
             [round_double (1 / 200), round_double (11 / 1000), round_double (1 / 25)]
            = 4 * round_double (1 / 100)"
    by (simp add: dbl_a)
  have d: "physicsStep w3 - accumulator w3 = 1 / 2 ^ 58"
    by (simp add: f_w3)
  have "\<exists>w'. frames no_input [round_double (1 / 200), round_double (11 / 1000), round_double (1 / 25)] w0
              = Some w'
        \<and> clamped_total (round_double (1 / 100)) 0
             [round_double (1 / 200), round_double (11 / 1000), round_double (1 / 25)]
            = 4 * round_double (1 / 100)
        \<and> updates w' = 3
        \<and> accumulator w' = 5764607523034233 / 576460752303423488
        \<and> physicsStep w' - accumulator w' = 1 / 2 ^ 58"
    using fr ct f_w3(3) f_w3(4) d by blast
  with c0 n0 show ?thesis
    unfolding w0_def by (simp add: initial_world_def)
qed




text \<open>
  C1, as the code has it. In a force pass that stays in the reals, every node \<open>(i, j)\<close> of
  the grid has added to its \<open>netForce\<close> one contribution for each of its four neighbours
  (up, down, left, right) that lies inside the grid, each equal to
  \<open>stiffness * (|d| - restLen) * normalize d - damping * velocity\<close> of the node itself, with
  \<open>d = neighbour.position - self.position\<close>, \<open>restLen = restHeight\<close> for the vertical and
  \<open>restWidth\<close> for the horizontal neighbours (and the external force on row 0, see C7);
  neighbours outside the grid contribute nothing. In an \<open>n\<close> by \<open>n\<close> grid with \<open>n \<ge> 2\<close> a
  corner node receives exactly 2 contributions, an edge node that is no corner exactly 3,
  an interior node exactly 4.
\<close>

theorem force_pass_contributions:
  assumes "grid_ok g" and "accumulate_forces ext g = Some g'"
    and "i < nat (subdivisionsY g)" and "j < nat (subdivisionsX g)"
  shows "netForce (bodies g' ! i ! j)
       = netForce (bodies g ! i ! j) + sum_list (map (contribution g i j) (links g i j))
         + (if i = 0 then ext else 0)
     \<and> (\<forall>l \<in> set (links g i j).
          normalize (displacement_to g i j (fst l))
            = Some (smul (1 / vlength (displacement_to g i j (fst l)))
                (displacement_to g i j (fst l))))
     \<and> (2 \<le> n \<and> subdivisionsX g = n \<and> subdivisionsY g = n \<longrightarrow>
          length (links g i j)
            = (if on_border n i \<and> on_border n j then 2
               else if on_border n i \<or> on_border n j then 3 else 4))"
proof (intro conjI impI)
  from accumulate_forces_netForce [OF assms]
  obtain f where f: "node_total ext g i j = Some f"
    and b: "bodies g' ! i ! j = (bodies g ! i ! j)\<lparr>netForce := netForce (bodies g ! i ! j) + f\<rparr>"
    by blast
  note L = node_total_links [OF assms(3) assms(4) f]
  show "netForce (bodies g' ! i ! j)
       = netForce (bodies g ! i ! j) + sum_list (map (contribution g i j) (links g i j))
         + (if i = 0 then ext else 0)"
    by (simp add: b L(1) add.assoc)
  show "\<forall>l \<in> set (links g i j).
          normalize (displacement_to g i j (fst l))
            = Some (smul (1 / vlength (displacement_to g i j (fst l)))
                (displacement_to g i j (fst l)))"
    using L(2) by (simp add: normalize_Some)
  show "length (links g i j)
            = (if on_border n i \<and> on_border n j then 2
               else if on_border n i \<or> on_border n j then 3 else 4)"
    if "2 \<le> n \<and> subdivisionsX g = n \<and> subdivisionsY g = n"
    using length_links [of i n j g] that assms(3) assms(4) by auto
qed

theorem force_pass_contributions_witness:
  "\<exists>g'. accumulate_forces 0 (lattice (3 / 2) (3 / 2) 3 3 25 (1 / 2)) = Some g'
     \<and> netForce (bodies g' ! 1 ! 1)
         = netForce (bodies (lattice (3 / 2) (3 / 2) 3 3 25 (1 / 2)) ! 1 ! 1)
           + sum_list (map (contribution (lattice (3 / 2) (3 / 2) 3 3 25 (1 / 2)) 1 1)
               (links (lattice (3 / 2) (3 / 2) 3 3 25 (1 / 2)) 1 1))
           + 0
     \<and> length (links (lattice (3 / 2) (3 / 2) 3 3 25 (1 / 2)) 1 1) = 4
     \<and> length (links (lattice (3 / 2) (3 / 2) 3 3 25 (1 / 2)) 0 1) = 3
     \<and> length (links (lattice (3 / 2) (3 / 2) 3 3 25 (1 / 2)) 0 0) = 2"
proof -
  let ?g = "lattice (3 / 2) (3 / 2) 3 3 25 (1 / 2)"
  have ok: "grid_ok ?g" by (rule lattice_ok)
  have "\<not> degenerate_link ?g" by (rule lattice_defined) simp_all
  then obtain g' where a: "accumulate_forces 0 ?g = Some g'"
    using update_defined_iff(2) [OF ok, of 0] by auto
  have r: "(1::nat) < nat (subdivisionsY ?g)" "(1::nat) < nat (subdivisionsX ?g)"
    "(0::nat) < nat (subdivisionsY ?g)" "(0::nat) < nat (subdivisionsX ?g)"
    by simp_all
  have n: "2 \<le> (3::int) \<and> subdivisionsX ?g = 3 \<and> subdivisionsY ?g = 3" by simp
  have "netForce (bodies g' ! 1 ! 1)
         = netForce (bodies ?g ! 1 ! 1) + sum_list (map (contribution ?g 1 1) (links ?g 1 1)) + 0"
    and "length (links ?g 1 1) = 4"
    using force_pass_contributions [OF ok a r(1) r(2), of 3] n by (simp_all add: on_border_def)
  moreover have "length (links ?g 0 1) = 3"
    using force_pass_contributions [OF ok a r(3) r(2), of 3] n by (simp add: on_border_def)
  moreover have "length (links ?g 0 0) = 2"
    using force_pass_contributions [OF ok a r(3) r(4), of 3] n by (simp add: on_border_def)
  ultimately show ?thesis using a by blast
qed

text \<open>
  C1 as stated fails for \<open>n = 1\<close>: the only node of a 1 by 1 grid is a corner, no
  neighbour of it lies inside the grid, and the force pass adds nothing to it.
\<close>

theorem single_node_grid_counterexample:
  "SoftBody_ctor 1 1 1 1 25 (1 / 2) = Built (lattice 1 1 1 1 25 (1 / 2))
   \<and> subdivisionsX (lattice 1 1 1 1 25 (1 / 2)) = 1 \<and> subdivisionsY (lattice 1 1 1 1 25 (1 / 2)) = 1
   \<and> on_border 1 0
   \<and> links (lattice 1 1 1 1 25 (1 / 2)) 0 0 = []
   \<and> node_forces 0 0 0 (lattice 1 1 1 1 25 (1 / 2)) = Some (lattice 1 1 1 1 25 (1 / 2))
   \<and> accumulate_forces 0 (lattice 1 1 1 1 25 (1 / 2)) = Some (lattice 1 1 1 1 25 (1 / 2))"
proof -
  have nf: "node_forces 0 0 0 (lattice 1 1 1 1 25 (1 / 2)) = Some (lattice 1 1 1 1 25 (1 / 2))"
    by (simp add: node_forces_def)
  have "accumulate_forces 0 (lattice 1 1 1 1 25 (1 / 2)) = Some (lattice 1 1 1 1 25 (1 / 2))"
    by (simp add: accumulate_forces_def nf)
  moreover have "links (lattice 1 1 1 1 25 (1 / 2)) 0 0 = []"
    by (simp add: links_def neighbours4_def in_grid_def)
  ultimately show ?thesis
    using nf by (simp add: SoftBody_ctor_positive on_border_def)
qed

text \<open>
  C7. The external force of a step is read from the held input: the Y axis iff left shift
  is held, else the X axis; mouse button 0 sets that component to \<open>+2\<close>, mouse button 1
  sets it to \<open>-2\<close>, and button 1, tested last, wins when both are held; nothing held
  gives the zero vector. A step \<open>update inp dt\<close> runs the force pass with this vector and
  integrates what the pass leaves. The pass adds the vector to the \<open>netForce\<close> of the
  nodes of row 0 and of no other node: against the pass without external force, the
  \<open>netForce\<close> of every node differs by exactly this vector in row 0 and by nothing
  elsewhere; accordingly the acceleration of a node after the step is its inverse mass
  times the force of the pass without external force, plus this vector in row 0.
\<close>

theorem external_force_row0:
  assumes "grid_ok g" and "update inp dt g = Some g'"
  shows "externalForce inp =
       (if mouseButton1 inp then (if leftShift inp then Vec3 0 (- 2) 0 else Vec3 (- 2) 0 0)
        else if mouseButton0 inp then (if leftShift inp then Vec3 0 2 0 else Vec3 2 0 0)
        else Vec3 0 0 0)
     \<and> (\<exists>g1 g0. accumulate_forces (externalForce inp) g = Some g1
          \<and> g' = integrate_all dt g1
          \<and> accumulate_forces 0 g = Some g0
          \<and> (\<forall>i < nat (subdivisionsY g). \<forall>j < nat (subdivisionsX g).
                netForce (bodies g1 ! i ! j)
                  = netForce (bodies g0 ! i ! j) + (if i = 0 then externalForce inp else 0)
                \<and> bodies g' ! i ! j = IntegrateLinear dt (bodies g1 ! i ! j)
                \<and> acceleration (bodies g' ! i ! j)
                    = smul (inverseMass (bodies g ! i ! j))
                        (netForce (bodies g0 ! i ! j)
                         + (if i = 0 then externalForce inp else 0))))"
proof
  show "externalForce inp =
       (if mouseButton1 inp then (if leftShift inp then Vec3 0 (- 2) 0 else Vec3 (- 2) 0 0)
        else if mouseButton0 inp then (if leftShift inp then Vec3 0 2 0 else Vec3 2 0 0)
        else Vec3 0 0 0)"
    by (rule externalForce_cases)
  from assms(2) obtain g1 where g1: "accumulate_forces (externalForce inp) g = Some g1"
    and g': "g' = integrate_all dt g1"
    by (auto simp: update_def split: Option.bind_splits)
  have "\<not> degenerate_link g"
    using update_defined_iff(2) [OF assms(1), of "externalForce inp"] g1 by simp
  then obtain g0 where g0: "accumulate_forces 0 g = Some g0"
    using update_defined_iff(2) [OF assms(1), of 0] by auto
  have t1: "touched (\<lambda>_ _. True) (with_force (externalForce inp) g) g g1"
    by (rule accumulate_forces_Some(1) [OF assms(1) g1])
  have ok1: "grid_ok g1" by (rule touched_grid_ok [OF t1 assms(1)])
  note sc = touched_scalars [OF t1]
  have t2: "touched (\<lambda>_ _. True) (\<lambda>_ _. IntegrateLinear dt) g1 g'"
    unfolding g' by (rule integrate_all_touched [OF ok1])
  have "netForce (bodies g1 ! i ! j)
          = netForce (bodies g0 ! i ! j) + (if i = 0 then externalForce inp else 0)
        \<and> bodies g' ! i ! j = IntegrateLinear dt (bodies g1 ! i ! j)
        \<and> acceleration (bodies g' ! i ! j)
            = smul (inverseMass (bodies g ! i ! j))
                (netForce (bodies g0 ! i ! j) + (if i = 0 then externalForce inp else 0))"
    if i: "i < nat (subdivisionsY g)" and j: "j < nat (subdivisionsX g)" for i j
  proof -
    from accumulate_forces_netForce [OF assms(1) g1 i j]
    obtain f where f: "node_total (externalForce inp) g i j = Some f"
      and b: "bodies g1 ! i ! j
                = (bodies g ! i ! j)\<lparr>netForce := netForce (bodies g ! i ! j) + f\<rparr>"
      by blast
    from accumulate_forces_netForce [OF assms(1) g0 i j]
    obtain f0 where f0: "node_total 0 g i j = Some f0"
      and b0: "bodies g0 ! i ! j
                = (bodies g ! i ! j)\<lparr>netForce := netForce (bodies g ! i ! j) + f0\<rparr>"
      by blast
    have "f = f0 + (if i = 0 then externalForce inp else 0)"
      using f f0 node_total_ext [of "externalForce inp" g i j] by simp
    then have n: "netForce (bodies g1 ! i ! j)
          = netForce (bodies g0 ! i ! j) + (if i = 0 then externalForce inp else 0)"
      by (simp add: b b0 add.assoc)
    have i1: "i < nat (subdivisionsY g1)" and j1: "j < nat (subdivisionsX g1)"
      using i j sc by simp_all
    have s: "bodies g' ! i ! j = IntegrateLinear dt (bodies g1 ! i ! j)"
      by (rule touched_all_nth [OF t2 ok1 i1 j1])
    have "inverseMass (bodies g1 ! i ! j) = inverseMass (bodies g ! i ! j)"
      by (simp add: b)
    then have "acceleration (bodies g' ! i ! j)
            = smul (inverseMass (bodies g ! i ! j)) (netForce (bodies g1 ! i ! j))"
      unfolding s by (simp add: IntegrateLinear_def Let_def)
    with n s show ?thesis by simp
  qed
  with g1 g' g0 show "\<exists>g1 g0. accumulate_forces (externalForce inp) g = Some g1
          \<and> g' = integrate_all dt g1
          \<and> accumulate_forces 0 g = Some g0
          \<and> (\<forall>i < nat (subdivisionsY g). \<forall>j < nat (subdivisionsX g).
                netForce (bodies g1 ! i ! j)
                  = netForce (bodies g0 ! i ! j) + (if i = 0 then externalForce inp else 0)
                \<and> bodies g' ! i ! j = IntegrateLinear dt (bodies g1 ! i ! j)
                \<and> acceleration (bodies g' ! i ! j)
                    = smul (inverseMass (bodies g ! i ! j))
                        (netForce (bodies g0 ! i ! j)
                         + (if i = 0 then externalForce inp else 0)))"
    by blast
qed

theorem external_force_row0_witness:
  "\<exists>g'. update \<lparr>leftShift = True, mouseButton0 = True, mouseButton1 = True\<rparr> (1 / 100)
            (lattice (3 / 2) (3 / 2) 3 3 25 (1 / 2)) = Some g'
     \<and> externalForce \<lparr>leftShift = True, mouseButton0 = True, mouseButton1 = True\<rparr> = Vec3 0 (- 2) 0
     \<and> acceleration (bodies g' ! 0 ! 2) = Vec3 0 (- 2) 0
     \<and> acceleration (bodies g' ! 1 ! 2) = Vec3 0 0 0
     \<and> (\<exists>g''. update no_input (1 / 100) (lattice (3 / 2) (3 / 2) 3 3 25 (1 / 2)) = Some g''
           \<and> acceleration (bodies g'' ! 0 ! 2) = Vec3 0 0 0)"
proof -
  let ?g = "lattice (3 / 2) (3 / 2) 3 3 25 (1 / 2)"
  let ?inp = "\<lparr>leftShift = True, mouseButton0 = True, mouseButton1 = True\<rparr>"
  have ok: "grid_ok ?g" by (rule lattice_ok)
  have r: "at_rest ?g" by (rule lattice_at_rest)
  have rr: "rest_in_range ?g" by (simp add: rest_in_range_def)
  have nd: "\<not> degenerate_link ?g" by (rule lattice_defined) simp_all
  have p: "(0::nat) < nat (subdivisionsY ?g)" "(1::nat) < nat (subdivisionsY ?g)"
    "(2::nat) < nat (subdivisionsX ?g)"
    by simp_all
  have im: "inverseMass (bodies ?g ! 0 ! 2) = 1" "inverseMass (bodies ?g ! 1 ! 2) = 1"
    by (simp_all add: lattice_node RigidBody_ctor_def)
  have nf: "netForce (bodies ?g ! 0 ! 2) = 0" "netForce (bodies ?g ! 1 ! 2) = 0"
    by (simp_all add: lattice_node RigidBody_ctor_def)
  have rest: "netForce (bodies g0 ! i ! 2) = 0"
    if "accumulate_forces 0 ?g = Some g0" "i < nat (subdivisionsY ?g)"
      "netForce (bodies ?g ! i ! 2) = 0" for g0 i
  proof -
    from accumulate_forces_netForce [OF ok that(1) that(2) p(3)]
    obtain f where "node_total 0 ?g i 2 = Some f"
      and "bodies g0 ! i ! 2
             = (bodies ?g ! i ! 2)\<lparr>netForce := netForce (bodies ?g ! i ! 2) + f\<rparr>"
      by blast
    then show ?thesis using node_total_at_rest [OF r rr that(2) p(3)] that(3) by simp
  qed
  from nd obtain g' where u: "update ?inp (1 / 100) ?g = Some g'"
    using update_defined_iff(1) [OF ok, of ?inp "1 / 100"] by auto
  have e: "externalForce ?inp = Vec3 0 (- 2) 0"
    using external_force_row0 [OF ok u, THEN conjunct1] by simp
  from external_force_row0 [OF ok u, THEN conjunct2]
  obtain g1 :: SoftBody and g0 where g0: "accumulate_forces 0 ?g = Some g0"
    and n: "\<forall>i < nat (subdivisionsY ?g). \<forall>j < nat (subdivisionsX ?g).
                netForce (bodies g1 ! i ! j)
                  = netForce (bodies g0 ! i ! j) + (if i = 0 then externalForce ?inp else 0)
                \<and> bodies g' ! i ! j = IntegrateLinear (1 / 100) (bodies g1 ! i ! j)
                \<and> acceleration (bodies g' ! i ! j)
                    = smul (inverseMass (bodies ?g ! i ! j))
                        (netForce (bodies g0 ! i ! j)
                         + (if i = 0 then externalForce ?inp else 0))"
    by blast
  have a0: "acceleration (bodies g' ! 0 ! 2) = Vec3 0 (- 2) 0"
    using n [rule_format, OF p(1) p(3), THEN conjunct2, THEN conjunct2] rest [OF g0 p(1) nf(1)] e im(1)
    by (simp add: smul_def zero_vec3_def plus_vec3_def)
  have a1: "acceleration (bodies g' ! 1 ! 2) = Vec3 0 0 0"
    using n [rule_format, OF p(2) p(3), THEN conjunct2, THEN conjunct2] rest [OF g0 p(2) nf(2)] im(2)
    by (simp add: smul_def zero_vec3_def plus_vec3_def)
  from nd obtain g'' where u0: "update no_input (1 / 100) ?g = Some g''"
    using update_defined_iff(1) [OF ok, of no_input "1 / 100"] by auto
  have e0: "externalForce no_input = 0"
    by (simp add: externalForce_cases no_input_def zero_vec3_def)
  from external_force_row0 [OF ok u0, THEN conjunct2]
  obtain h1 :: SoftBody and h0 where h0: "accumulate_forces 0 ?g = Some h0"
    and m: "\<forall>i < nat (subdivisionsY ?g). \<forall>j < nat (subdivisionsX ?g).
                netForce (bodies h1 ! i ! j)
                  = netForce (bodies h0 ! i ! j) + (if i = 0 then externalForce no_input else 0)
                \<and> bodies g'' ! i ! j = IntegrateLinear (1 / 100) (bodies h1 ! i ! j)
                \<and> acceleration (bodies g'' ! i ! j)
                    = smul (inverseMass (bodies ?g ! i ! j))
                        (netForce (bodies h0 ! i ! j)
                         + (if i = 0 then externalForce no_input else 0))"
    by blast
  have b0: "acceleration (bodies g'' ! 0 ! 2) = Vec3 0 0 0"
    using m [rule_format, OF p(1) p(3), THEN conjunct2, THEN conjunct2] rest [OF h0 p(1) nf(1)] e0 im(1)
    by (simp add: smul_def zero_vec3_def plus_vec3_def)
  show ?thesis using u e a0 a1 u0 b0 by blast
qed

text \<open>
  C9, as the code has it. The force pass normalises every displacement between linked
  nodes without a test of its length. \<open>normalize\<close> gives no direction exactly where the
  squared length is zero or infinite in \<^verbatim>\<open>float\<close>: on the zero vector, and also on
  vectors that are not zero but so short that their squared length rounds to zero (or so
  long that it overflows). If two linked nodes are at the same position, the pass (and the
  step) evaluates \<open>normalize\<close> on the zero vector: the model's \<open>None\<close>. The pass and the
  step are undefined in this way exactly when some link has such a displacement. If the
  displacement of every link has components of magnitude at most \<open>2^60\<close> and one of at
  least \<open>2^-60\<close>, every normalisation of the step has an argument of non-zero, finite
  length and gives a direction.
\<close>

theorem normalize_unguarded:
  assumes "grid_ok g"
  shows "(normalize v = None \<longleftrightarrow> dot_float v = 0 \<or> 2 ^ 128 \<le> dot_float v)
     \<and> normalize 0 = None
     \<and> (coincident_link g \<longrightarrow> accumulate_forces ext g = None \<and> update inp dt g = None)
     \<and> (accumulate_forces ext g = None \<longleftrightarrow> degenerate_link g)
     \<and> (update inp dt g = None \<longleftrightarrow> degenerate_link g)
     \<and> (links_in_float_range g \<longrightarrow>
          (\<exists>g'. accumulate_forces ext g = Some g') \<and> (\<exists>g'. update inp dt g = Some g'))"
  using update_defined_iff(1) [OF assms, of inp dt] update_defined_iff(2) [OF assms, of ext]
    coincident_degenerate [of g] in_range_not_degenerate [of g]
  by (auto simp: normalize_None_iff)

theorem normalize_unguarded_witness:
  "coincident_link (lattice 0 0 2 2 25 (1 / 2))
   \<and> update no_input (3 / 250) (lattice 0 0 2 2 25 (1 / 2)) = None
   \<and> links_in_float_range (lattice 1 1 10 10 25 (1 / 2))
   \<and> (\<exists>g'. update no_input (3 / 250) (lattice 1 1 10 10 25 (1 / 2)) = Some g')"
proof -
  have c: "coincident_link (lattice 0 0 2 2 25 (1 / 2))" by (simp add: lattice_coincident)
  have n: "links_in_float_range (lattice 1 1 10 10 25 (1 / 2))"
    by (rule lattice_in_range) simp_all
  note z = normalize_unguarded [where g = "lattice 0 0 2 2 25 (1 / 2)" and inp = no_input
        and dt = "3 / 250" and v = 0 and ext = 0, OF lattice_ok]
  note m = normalize_unguarded [where g = "lattice 1 1 10 10 25 (1 / 2)" and inp = no_input
        and dt = "3 / 250" and v = 0 and ext = 0, OF lattice_ok]
  have "update no_input (3 / 250) (lattice 0 0 2 2 25 (1 / 2)) = None"
    using z [THEN conjunct2, THEN conjunct2, THEN conjunct1, rule_format, OF c]
    by (rule conjunct2)
  moreover have "\<exists>g'. update no_input (3 / 250) (lattice 1 1 10 10 25 (1 / 2)) = Some g'"
    using m [THEN conjunct2, THEN conjunct2, THEN conjunct2, THEN conjunct2, THEN conjunct2,
        rule_format, OF n]
    by (rule conjunct2)
  ultimately show ?thesis using c n by (intro conjI)
qed

text \<open>
  C9 as stated fails on its second half: in the grid built with width and height
  \<open>2 * 10^-30\<close> no two linked nodes coincide (neighbours are \<open>10^-30\<close> apart), yet the
  squared length of every link rounds to zero in \<^verbatim>\<open>float\<close>, the normalisation gives no
  direction and the step is undefined.
\<close>

theorem short_link_counterexample:
  "SoftBody_ctor (2 / 10 ^ 30) (2 / 10 ^ 30) 2 2 25 (1 / 2)
     = Built (lattice (2 / 10 ^ 30) (2 / 10 ^ 30) 2 2 25 (1 / 2))
   \<and> \<not> coincident_link (lattice (2 / 10 ^ 30) (2 / 10 ^ 30) 2 2 25 (1 / 2))
   \<and> position (bodies (lattice (2 / 10 ^ 30) (2 / 10 ^ 30) 2 2 25 (1 / 2)) ! 0 ! 1)
       - position (bodies (lattice (2 / 10 ^ 30) (2 / 10 ^ 30) 2 2 25 (1 / 2)) ! 0 ! 0)
       = Vec3 (1 / 10 ^ 30) 0 0
   \<and> dot_float (Vec3 (1 / 10 ^ 30) 0 0) = 0
   \<and> normalize (Vec3 (1 / 10 ^ 30) 0 0) = None
   \<and> accumulate_forces 0 (lattice (2 / 10 ^ 30) (2 / 10 ^ 30) 2 2 25 (1 / 2)) = None
   \<and> update no_input (3 / 250) (lattice (2 / 10 ^ 30) (2 / 10 ^ 30) 2 2 25 (1 / 2)) = None"
proof -
  let ?g = "lattice (2 / 10 ^ 30) (2 / 10 ^ 30) 2 2 25 (1 / 2)"
  have ok: "grid_ok ?g" by (rule lattice_ok)
  have b: "SoftBody_ctor (2 / 10 ^ 30) (2 / 10 ^ 30) 2 2 25 (1 / 2) = Built ?g"
    by (rule SoftBody_ctor_positive) simp_all
  have nc: "\<not> coincident_link ?g" by (simp add: lattice_coincident)
  have i: "(0::nat) < nat 2" "(0::nat) + 1 < nat 2" by simp_all
  have d: "position (bodies ?g ! (0 + 1) ! 0) - position (bodies ?g ! 0 ! 0) = Vec3 0 (1 / 10 ^ 30) 0"
    "position (bodies ?g ! 0 ! (0 + 1)) - position (bodies ?g ! 0 ! 0) = Vec3 (1 / 10 ^ 30) 0 0"
    using lattice_up [OF i(2) i(1), of "2 / 10 ^ 30" "2 / 10 ^ 30" 25 "1 / 2"]
      lattice_right [OF i(1) i(2), of "2 / 10 ^ 30" "2 / 10 ^ 30" 25 "1 / 2"]
    by simp_all
  have z: "dot_float (Vec3 (1 / 10 ^ 30) 0 0) = 0"
    by (rule dot_float_tiny) simp_all
  have n: "normalize (Vec3 (1 / 10 ^ 30) 0 0) = None"
    unfolding normalize_def z by simp
  have "(0::nat) < nat (subdivisionsY ?g)" "(0::nat) < nat (subdivisionsX ?g)"
    "int 0 < subdivisionsX ?g - 1"
    by simp_all
  moreover have "normalize (position (bodies ?g ! 0 ! (0 + 1)) - position (bodies ?g ! 0 ! 0)) = None"
    unfolding d(2) by (rule n)
  ultimately have dg: "degenerate_link ?g"
    unfolding degenerate_link_def by blast
  have a: "accumulate_forces 0 ?g = None"
    using update_defined_iff(2) [OF ok, of 0] dg by simp
  have u: "update no_input (3 / 250) ?g = None"
    using update_defined_iff(1) [OF ok, of no_input "3 / 250"] dg by simp
  have d1: "position (bodies ?g ! 0 ! 1) - position (bodies ?g ! 0 ! 0) = Vec3 (1 / 10 ^ 30) 0 0"
    using d(2) by simp
  show ?thesis using b nc d1 z n a u by (intro conjI)
qed

text \<open>
  C5, as the code has it. For a grid at exact rest-length spacing, laid out as the
  constructor lays it out (each node displaced from its lower neighbour by exactly
  \<open>(0, restHeight, 0)\<close> and from its left neighbour by exactly \<open>(restWidth, 0, 0)\<close>), with
  rest lengths between \<open>2^-60\<close> and \<open>2^60\<close> (so that no squared length underflows or
  overflows in \<^verbatim>\<open>float\<close>), zero velocity and empty accumulators everywhere and zero
  external force, any number \<open>n\<close> of steps of any size \<open>dt\<close> is defined and leaves the
  position and the velocity of every node unchanged; all velocities are zero.
\<close>

theorem rest_is_fixed_point:
  assumes "grid_ok g" and "at_rest g" and "rest_in_range g" and "externalForce inp = 0"
  shows "\<exists>g'. ((\<lambda>b. b \<bind> update inp dt) ^^ n) (Some g) = Some g'
     \<and> (\<forall>i < nat (subdivisionsY g). \<forall>j < nat (subdivisionsX g).
           position (bodies g' ! i ! j) = position (bodies g ! i ! j)
           \<and> velocity (bodies g' ! i ! j) = velocity (bodies g ! i ! j)
           \<and> velocity (bodies g' ! i ! j) = 0)"
proof -
  from steps_at_rest [OF assms, where dt = dt and n = n]
  obtain g' where s: "((\<lambda>b. b \<bind> update inp dt) ^^ n) (Some g) = Some g'"
    and m: "same_motion g g'"
    by blast
  have "velocity (bodies g ! i ! j) = 0"
    if "i < nat (subdivisionsY g)" "j < nat (subdivisionsX g)" for i j
    using assms(2) that by (simp add: at_rest_def)
  with m s show ?thesis by (simp add: same_motion_def)
qed

theorem rest_is_fixed_point_witness:
  "\<exists>g'. ((\<lambda>b. b \<bind> update no_input (1 / 100)) ^^ 100)
            (Some (lattice (3 / 2) (3 / 2) 3 3 25 (1 / 2))) = Some g'
     \<and> restWidth (lattice (3 / 2) (3 / 2) 3 3 25 (1 / 2)) = 1 / 2
     \<and> restHeight (lattice (3 / 2) (3 / 2) 3 3 25 (1 / 2)) = 1 / 2
     \<and> position (bodies g' ! 1 ! 1) = Vec3 (- 1 / 4) (- 1 / 4) 0
     \<and> velocity (bodies g' ! 1 ! 1) = 0"
proof -
  let ?g = "lattice (3 / 2) (3 / 2) 3 3 25 (1 / 2)"
  have ok: "grid_ok ?g" by (rule lattice_ok)
  have r: "at_rest ?g" by (rule lattice_at_rest)
  have rr: "rest_in_range ?g" by (simp add: rest_in_range_def)
  have e: "externalForce no_input = 0"
    by (simp add: externalForce_cases no_input_def zero_vec3_def)
  from rest_is_fixed_point [OF ok r rr e, where dt = "1 / 100" and n = 100]
  obtain g' where s: "((\<lambda>b. b \<bind> update no_input (1 / 100)) ^^ 100) (Some ?g) = Some g'"
    and a: "\<forall>i < nat (subdivisionsY ?g). \<forall>j < nat (subdivisionsX ?g).
           position (bodies g' ! i ! j) = position (bodies ?g ! i ! j)
           \<and> velocity (bodies g' ! i ! j) = velocity (bodies ?g ! i ! j)
           \<and> velocity (bodies g' ! i ! j) = 0"
    by blast
  have p: "(1::nat) < nat (subdivisionsY ?g)" "(1::nat) < nat (subdivisionsX ?g)"
    by simp_all
  note n = a [rule_format, OF p]
  have "position (bodies g' ! 1 ! 1) = position (bodies ?g ! 1 ! 1)"
    "velocity (bodies g' ! 1 ! 1) = 0"
    using n by blast+
  moreover have "position (bodies ?g ! 1 ! 1) = Vec3 (- 1 / 4) (- 1 / 4) 0"
    by (simp add: lattice_position)
  ultimately show ?thesis using s by simp
qed

text \<open>
  C5 as stated fails for a grid whose rest lengths are zero: the grid built with zero
  width and height is at exact rest-length spacing (all nodes at the origin, both rest
  lengths zero) with zero velocity, and its first step normalises a zero vector: the
  positions do not stay. It fails as well where the rest lengths are not zero but too
  short for \<^verbatim>\<open>float\<close>: the grid built with width and height \<open>2 * 10^-30\<close> is at exact
  rest-length spacing with distinct nodes, and its first step is undefined too.
\<close>

theorem zero_rest_length_counterexample:
  "SoftBody_ctor 0 0 2 2 25 (1 / 2) = Built (lattice 0 0 2 2 25 (1 / 2))
   \<and> grid_ok (lattice 0 0 2 2 25 (1 / 2))
   \<and> at_rest (lattice 0 0 2 2 25 (1 / 2))
   \<and> externalForce no_input = 0
   \<and> update no_input (1 / 100) (lattice 0 0 2 2 25 (1 / 2)) = None
   \<and> at_rest (lattice (2 / 10 ^ 30) (2 / 10 ^ 30) 2 2 25 (1 / 2))
   \<and> restWidth (lattice (2 / 10 ^ 30) (2 / 10 ^ 30) 2 2 25 (1 / 2)) = 1 / 10 ^ 30
   \<and> update no_input (1 / 100) (lattice (2 / 10 ^ 30) (2 / 10 ^ 30) 2 2 25 (1 / 2)) = None"
proof -
  let ?g = "lattice 0 0 2 2 25 (1 / 2)"
  let ?h = "lattice (2 / 10 ^ 30) (2 / 10 ^ 30) 2 2 25 (1 / 2)"
  have ok: "grid_ok ?g" by (rule lattice_ok)
  have r: "at_rest ?g" by (rule lattice_at_rest)
  have c: "coincident_link ?g" by (simp add: lattice_coincident)
  have e: "externalForce no_input = 0"
    by (simp add: externalForce_cases no_input_def zero_vec3_def)
  have u: "update no_input (1 / 100) ?g = None"
    using update_defined_iff(1) [OF ok, of no_input "1 / 100"] coincident_degenerate [OF c]
    by simp
  have rh: "at_rest ?h" by (rule lattice_at_rest)
  have wh: "restWidth ?h = 1 / 10 ^ 30" by simp
  have i: "(0::nat) < nat 2" "(0::nat) + 1 < nat 2" by simp_all
  have d: "position (bodies ?h ! 0 ! (0 + 1)) - position (bodies ?h ! 0 ! 0)
             = Vec3 (1 / 10 ^ 30) 0 0"
    using lattice_right [OF i(1) i(2), of "2 / 10 ^ 30" "2 / 10 ^ 30" 25 "1 / 2"] by simp
  have n: "normalize (Vec3 (1 / 10 ^ 30) 0 0) = None"
    by (rule normalize_tiny) simp_all
  have "(0::nat) < nat (subdivisionsY ?h)" "(0::nat) < nat (subdivisionsX ?h)"
    "int 0 < subdivisionsX ?h - 1"
    by simp_all
  moreover have "normalize (position (bodies ?h ! 0 ! (0 + 1)) - position (bodies ?h ! 0 ! 0)) = None"
    unfolding d by (rule n)
  ultimately have dg: "degenerate_link ?h"
    unfolding degenerate_link_def by blast
  have uh: "update no_input (1 / 100) ?h = None"
    using update_defined_iff(1) [OF lattice_ok, of no_input "1 / 100"] dg by simp
  have b: "SoftBody_ctor 0 0 2 2 25 (1 / 2) = Built ?g"
    by (rule SoftBody_ctor_positive) simp_all
  show ?thesis using b ok r e u rh wh uh by (intro conjI)
qed

text \<open>
  C6, as the code has it. With positive subdivision counts, the constructor creates
  \<open>subY\<close> rows of \<open>subX\<close> nodes, \<open>subX * subY\<close> in all, on a regular rectangular lattice
  with horizontal spacing \<open>width / subX\<close> and vertical spacing \<open>height / subY\<close> that starts
  at \<open>(- width / 2, - height / 2, 0)\<close>: node \<open>(i, j)\<close> is at
  \<open>(- width / 2 + j * width / subX, - height / 2 + i * height / subY, 0)\<close>. Every node has
  mass and inverse mass 1, zero velocity and acceleration and empty accumulators;
  \<open>restWidth = width / subX\<close> and \<open>restHeight = height / subY\<close>. The centre of the lattice
  is \<open>(- width / (2 * subX), - height / (2 * subY), 0)\<close>.
\<close>

theorem SoftBody_ctor_lattice:
  assumes "0 < subX" and "0 < subY"
  shows "\<exists>g. SoftBody_ctor width height subX subY coeff damp = Built g
     \<and> subdivisionsX g = subX \<and> subdivisionsY g = subY
     \<and> coefficient g = coeff \<and> dampening g = damp
     \<and> restWidth g = width / real_of_int subX \<and> restHeight g = height / real_of_int subY
     \<and> length (bodies g) = nat subY \<and> (\<forall>i < nat subY. length (bodies g ! i) = nat subX)
     \<and> int (length (concat (bodies g))) = subX * subY
     \<and> (subX * subY < 2 ^ 32 \<longrightarrow> int (numRigidBodies g) = subX * subY)
     \<and> (\<forall>i < nat subY. \<forall>j < nat subX.
           bodies g ! i ! j =
             \<lparr>mass = 1, inverseMass = 1,
              position = Vec3 (- width / 2 + real j * (width / real_of_int subX))
                              (- height / 2 + real i * (height / real_of_int subY)) 0,
              velocity = 0, acceleration = 0, netForce = 0, netImpulse = 0\<rparr>)
     \<and> centroid g = Vec3 (- width / (2 * real_of_int subX)) (- height / (2 * real_of_int subY)) 0"
proof -
  let ?g = "lattice width height subX subY coeff damp"
  have b: "SoftBody_ctor width height subX subY coeff damp = Built ?g"
    by (rule SoftBody_ctor_positive [OF assms])
  have c: "int (length (concat (bodies ?g))) = subX * subY"
    using assms by (simp add: length_concat_lattice)
  have n: "subX * subY < 2 ^ 32 \<longrightarrow> int (numRigidBodies ?g) = subX * subY"
    using assms by (simp add: lattice_def)
  have nodes: "\<forall>i < nat subY. \<forall>j < nat subX.
           bodies ?g ! i ! j =
             \<lparr>mass = 1, inverseMass = 1,
              position = Vec3 (- width / 2 + real j * (width / real_of_int subX))
                              (- height / 2 + real i * (height / real_of_int subY)) 0,
              velocity = 0, acceleration = 0, netForce = 0, netImpulse = 0\<rparr>"
    by (simp add: lattice_node RigidBody_ctor_def zero_vec3_def mult.commute)
  have "subdivisionsX ?g = subX \<and> subdivisionsY ?g = subY
     \<and> coefficient ?g = coeff \<and> dampening ?g = damp
     \<and> restWidth ?g = width / real_of_int subX \<and> restHeight ?g = height / real_of_int subY
     \<and> length (bodies ?g) = nat subY \<and> (\<forall>i < nat subY. length (bodies ?g ! i) = nat subX)"
    by simp
  with b c n nodes lattice_centroid [OF assms, of width height coeff damp]
  show ?thesis by blast
qed

theorem SoftBody_ctor_lattice_witness:
  "\<exists>g. SoftBody_ctor 1 1 10 10 25 (1 / 2) = Built g
     \<and> int (length (concat (bodies g))) = 100
     \<and> restWidth g = 1 / 10 \<and> restHeight g = 1 / 10
     \<and> position (bodies g ! 0 ! 0) = Vec3 (- 1 / 2) (- 1 / 2) 0
     \<and> position (bodies g ! 9 ! 9) = Vec3 (2 / 5) (2 / 5) 0
     \<and> centroid g = Vec3 (- 1 / 20) (- 1 / 20) 0"
proof -
  have p: "(0::int) < 10" by simp
  from SoftBody_ctor_lattice [OF p p, where width = 1 and height = 1 and coeff = 25
      and damp = "1 / 2"]
  obtain g where b: "SoftBody_ctor 1 1 10 10 25 (1 / 2) = Built g"
    and l: "int (length (concat (bodies g))) = 10 * 10"
    and r: "restWidth g = 1 / real_of_int 10" "restHeight g = 1 / real_of_int 10"
    and nodes: "\<forall>i < nat 10. \<forall>j < nat 10.
           bodies g ! i ! j =
             \<lparr>mass = 1, inverseMass = 1,
              position = Vec3 (- 1 / 2 + real j * (1 / real_of_int 10))
                              (- 1 / 2 + real i * (1 / real_of_int 10)) 0,
              velocity = 0, acceleration = 0, netForce = 0, netImpulse = 0\<rparr>"
    and c: "centroid g = Vec3 (- 1 / (2 * real_of_int 10)) (- 1 / (2 * real_of_int 10)) 0"
    by blast
  have "position (bodies g ! 0 ! 0) = Vec3 (- 1 / 2) (- 1 / 2) 0"
    using nodes [rule_format, of 0 0] by simp
  moreover have "position (bodies g ! 9 ! 9) = Vec3 (2 / 5) (2 / 5) 0"
    using nodes [rule_format, of 9 9] by simp
  ultimately show ?thesis using b l r c by simp
qed

text \<open>
  C6 as stated fails on the centre: the 2 by 2 lattice of width and height 1 has its
  nodes at \<open>x, y \<in> {- 1/2, 0}\<close>, centred at \<open>(- 1/4, - 1/4, 0)\<close> and not at the origin.
\<close>

theorem lattice_not_centred_counterexample:
  "SoftBody_ctor 1 1 2 2 25 (1 / 2) = Built (lattice 1 1 2 2 25 (1 / 2))
   \<and> map position (concat (bodies (lattice 1 1 2 2 25 (1 / 2))))
       = [Vec3 (- 1 / 2) (- 1 / 2) 0, Vec3 0 (- 1 / 2) 0, Vec3 (- 1 / 2) 0 0, Vec3 0 0 0]
   \<and> centroid (lattice 1 1 2 2 25 (1 / 2)) = Vec3 (- 1 / 4) (- 1 / 4) 0
   \<and> centroid (lattice 1 1 2 2 25 (1 / 2)) \<noteq> 0"
proof -
  have u: "[0..<nat 2] = [0, 1]" by (simp add: upt_rec)
  have ps: "map position (concat (bodies (lattice 1 1 2 2 25 (1 / 2))))
       = [Vec3 (- 1 / 2) (- 1 / 2) 0, Vec3 0 (- 1 / 2) 0, Vec3 (- 1 / 2) 0 0, Vec3 0 0 0]"
    unfolding lattice_positions u by simp
  have c: "centroid (lattice 1 1 2 2 25 (1 / 2)) = Vec3 (- 1 / 4) (- 1 / 4) 0"
    using lattice_centroid [of 2 2 1 1 25 "1 / 2"] by simp
  show ?thesis
    using ps c by (simp add: SoftBody_ctor_positive zero_vec3_def)
qed

text \<open>
  C8, as the code has it. A node constructed with mass \<open>m\<close> has mass \<open>m\<close>, non-negative
  when \<open>m\<close> is (the constructor does not test the sign). Its inverse mass is \<open>0\<close> when
  \<open>m = 0\<close> and the \<^verbatim>\<open>float\<close> quotient \<open>1 / m\<close> otherwise, which is not zero for a finite
  \<open>m\<close> (\<open>|m| < 2^128\<close>); for \<open>2^-126 \<le> |m| \<le> 2^126\<close>, where the quotient neither
  overflows nor loses bits to underflow, \<open>inverseMass * mass\<close> is \<open>1\<close> within the rounding
  of the quotient: it differs from \<open>1\<close> by at most \<open>2^-24\<close>, and the product rounded to
  \<^verbatim>\<open>float\<close> by at most \<open>2^-22\<close>. The default constructor and the grid's constructor give
  every node mass and inverse mass 1. \<open>IntegrateLinear\<close> and \<open>update\<close> change neither the
  mass nor the inverse mass of any node, so the relation set at construction is kept.
\<close>

theorem mass_relation:
  "mass (RigidBody_ctor pos vel acc m) = m
   \<and> (\<bar>m\<bar> < 2 ^ 128 \<longrightarrow> (inverseMass (RigidBody_ctor pos vel acc m) = 0 \<longleftrightarrow> m = 0))
   \<and> (m \<noteq> 0 \<longrightarrow> inverseMass (RigidBody_ctor pos vel acc m) = round_float (1 / m))
   \<and> (1 / 2 ^ 126 \<le> \<bar>m\<bar> \<and> \<bar>m\<bar> \<le> 2 ^ 126 \<longrightarrow>
        \<bar>inverseMass (RigidBody_ctor pos vel acc m) * mass (RigidBody_ctor pos vel acc m) - 1\<bar>
          \<le> 1 / 2 ^ 24
        \<and> \<bar>round_float (inverseMass (RigidBody_ctor pos vel acc m)
                           * mass (RigidBody_ctor pos vel acc m)) - 1\<bar>
          \<le> 1 / 2 ^ 22)
   \<and> (0 \<le> m \<longrightarrow> 0 \<le> mass (RigidBody_ctor pos vel acc m))
   \<and> mass RigidBody_default = 1 \<and> inverseMass RigidBody_default = 1
   \<and> mass (IntegrateLinear dt b) = mass b \<and> inverseMass (IntegrateLinear dt b) = inverseMass b
   \<and> (SoftBody_ctor width height subX subY coeff damp = Built g0 \<longrightarrow>
        (\<forall>i < nat subY. \<forall>j < nat subX.
           mass (bodies g0 ! i ! j) = 1 \<and> inverseMass (bodies g0 ! i ! j) = 1))
   \<and> (grid_ok g \<and> update inp dt g = Some g' \<longrightarrow>
        (\<forall>i < nat (subdivisionsY g). \<forall>j < nat (subdivisionsX g).
           mass (bodies g' ! i ! j) = mass (bodies g ! i ! j)
           \<and> inverseMass (bodies g' ! i ! j) = inverseMass (bodies g ! i ! j)))"
proof -
  have m: "mass (RigidBody_ctor pos vel acc m) = m"
    and q: "m \<noteq> 0 \<longrightarrow> inverseMass (RigidBody_ctor pos vel acc m) = round_float (1 / m)"
    and s: "0 \<le> m \<longrightarrow> 0 \<le> mass (RigidBody_ctor pos vel acc m)"
    by (simp_all add: RigidBody_ctor_def)
  have z: "\<bar>m\<bar> < 2 ^ 128 \<longrightarrow> (inverseMass (RigidBody_ctor pos vel acc m) = 0 \<longleftrightarrow> m = 0)"
  proof (intro impI)
    assume f: "\<bar>m\<bar> < 2 ^ 128"
    have "round_float (1 / m) \<noteq> 0" if nz: "m \<noteq> 0"
    proof (rule round_float_nonzero)
      have p: "0 < \<bar>m\<bar>" using nz by simp
      have "1 / 2 ^ 128 \<le> 1 / \<bar>m\<bar>"
        using f p by (intro divide_left_mono) simp_all
      moreover have "(1::real) / 2 ^ 148 \<le> 1 / 2 ^ 128" by simp
      ultimately show "1 / 2 ^ 148 \<le> \<bar>1 / m\<bar>" by (simp add: abs_divide)
    qed
    then show "inverseMass (RigidBody_ctor pos vel acc m) = 0 \<longleftrightarrow> m = 0"
      by (auto simp: RigidBody_ctor_def)
  qed
  have tol: "1 / 2 ^ 126 \<le> \<bar>m\<bar> \<and> \<bar>m\<bar> \<le> 2 ^ 126 \<longrightarrow>
        \<bar>inverseMass (RigidBody_ctor pos vel acc m) * mass (RigidBody_ctor pos vel acc m) - 1\<bar>
          \<le> 1 / 2 ^ 24
        \<and> \<bar>round_float (inverseMass (RigidBody_ctor pos vel acc m)
                           * mass (RigidBody_ctor pos vel acc m)) - 1\<bar>
          \<le> 1 / 2 ^ 22"
  proof (intro impI)
    assume r: "1 / 2 ^ 126 \<le> \<bar>m\<bar> \<and> \<bar>m\<bar> \<le> 2 ^ 126"
    have "(0::real) < 1 / 2 ^ 126" by simp
    with r have nz: "m \<noteq> 0" by auto
    define p where "p = round_float (1 / m) * m"
    have t: "\<bar>p - 1\<bar> \<le> 1 / 2 ^ 24"
      unfolding p_def using inverse_mass_tolerance [of m] r by simp
    have "\<bar>p\<bar> \<le> 1 + 1 / 2 ^ 24" using t by linarith
    then have "\<bar>p\<bar> \<le> 2" by simp
    then have "\<bar>p\<bar> / 2 ^ 24 \<le> 2 / 2 ^ 24" by (rule divide_right_mono) simp
    then have "\<bar>round_float p - p\<bar> \<le> 2 / 2 ^ 24 + 1 / 2 ^ 150"
      using round_float_error [of p] by linarith
    moreover have "(2::real) / 2 ^ 24 + 1 / 2 ^ 150 + 1 / 2 ^ 24 \<le> 1 / 2 ^ 22" by simp
    ultimately have "\<bar>round_float p - 1\<bar> \<le> 1 / 2 ^ 22" using t by linarith
    with t show "\<bar>inverseMass (RigidBody_ctor pos vel acc m)
                  * mass (RigidBody_ctor pos vel acc m) - 1\<bar> \<le> 1 / 2 ^ 24
        \<and> \<bar>round_float (inverseMass (RigidBody_ctor pos vel acc m)
                           * mass (RigidBody_ctor pos vel acc m)) - 1\<bar>
          \<le> 1 / 2 ^ 22"
      using nz by (simp add: RigidBody_ctor_def p_def)
  qed
  have dflt: "mass RigidBody_default = 1 \<and> inverseMass RigidBody_default = 1"
    by (simp add: RigidBody_default_def)
  have integ: "mass (IntegrateLinear dt b) = mass b
     \<and> inverseMass (IntegrateLinear dt b) = inverseMass b"
    by (simp add: IntegrateLinear_def Let_def)
  have built: "SoftBody_ctor width height subX subY coeff damp = Built g0 \<longrightarrow>
        (\<forall>i < nat subY. \<forall>j < nat subX.
           mass (bodies g0 ! i ! j) = 1 \<and> inverseMass (bodies g0 ! i ! j) = 1)"
    by (simp add: SoftBody_ctor_Built lattice_node RigidBody_ctor_def)
  have upd: "grid_ok g \<and> update inp dt g = Some g' \<longrightarrow>
        (\<forall>i < nat (subdivisionsY g). \<forall>j < nat (subdivisionsX g).
           mass (bodies g' ! i ! j) = mass (bodies g ! i ! j)
           \<and> inverseMass (bodies g' ! i ! j) = inverseMass (bodies g ! i ! j))"
  proof (intro impI allI)
    fix i j
    assume a: "grid_ok g \<and> update inp dt g = Some g'"
      and i: "i < nat (subdivisionsY g)" and j: "j < nat (subdivisionsX g)"
    have t: "touched (\<lambda>_ _. True) (stepped (externalForce inp) dt g) g g'"
      using a by (intro update_Some) simp_all
    have "bodies g' ! i ! j = stepped (externalForce inp) dt g i j (bodies g ! i ! j)"
      using a by (intro touched_all_nth [OF t _ i j]) simp
    then show "mass (bodies g' ! i ! j) = mass (bodies g ! i ! j)
           \<and> inverseMass (bodies g' ! i ! j) = inverseMass (bodies g ! i ! j)"
      by (simp add: stepped_mass)
  qed
  from m z q tol s dflt integ built upd show ?thesis by (intro conjI) blast+
qed

theorem mass_relation_witness:
  "inverseMass (RigidBody_ctor 0 0 0 41) = 3273603 / 134217728
   \<and> inverseMass (RigidBody_ctor 0 0 0 41) * mass (RigidBody_ctor 0 0 0 41)
       = 134217723 / 134217728
   \<and> \<bar>inverseMass (RigidBody_ctor 0 0 0 41) * mass (RigidBody_ctor 0 0 0 41) - 1\<bar> \<le> 1 / 2 ^ 24
   \<and> inverseMass (RigidBody_ctor 0 0 0 0) = 0
   \<and> inverseMass (RigidBody_ctor 0 0 0 41) \<noteq> 0
   \<and> 0 \<le> mass (RigidBody_ctor 0 0 0 41)
   \<and> mass (bodies (lattice 1 1 10 10 25 (1 / 2)) ! 3 ! 4) = 1
   \<and> inverseMass (bodies (lattice 1 1 10 10 25 (1 / 2)) ! 3 ! 4) = 1
   \<and> (\<exists>g'. update no_input (3 / 250) (lattice 1 1 10 10 25 (1 / 2)) = Some g'
         \<and> mass (bodies g' ! 3 ! 4) = 1 \<and> inverseMass (bodies g' ! 3 ! 4) = 1)"
proof -
  let ?g = "lattice 1 1 10 10 25 (1 / 2)"
  have ok: "grid_ok ?g" by (rule lattice_ok)
  have "\<not> degenerate_link ?g" by (rule lattice_defined) simp_all
  then obtain g' where u: "update no_input (3 / 250) ?g = Some g'"
    using update_defined_iff(1) [OF ok, of no_input "3 / 250"] by auto
  have b: "SoftBody_ctor 1 1 10 10 25 (1 / 2) = Built ?g"
    by (simp add: SoftBody_ctor_positive)
  note m41 = mass_relation [where m = 41 and pos = 0 and vel = 0 and acc = 0
      and width = 1 and height = 1 and subX = 10 and subY = 10 and coeff = 25 and damp = "1 / 2"
      and ?g0.0 = ?g and g = ?g and inp = no_input and dt = "3 / 250" and g' = g'
      and b = RigidBody_default]
  note m0 = mass_relation [where m = 0 and pos = 0 and vel = 0 and acc = 0
      and width = 1 and height = 1 and subX = 10 and subY = 10 and coeff = 25 and damp = "1 / 2"
      and ?g0.0 = ?g and g = ?g and inp = no_input and dt = "3 / 250" and g' = g'
      and b = RigidBody_default]
  have i: "(3::nat) < nat 10" "(4::nat) < nat 10" by simp_all
  have a: "(41::real) \<noteq> 0" "(0::real) \<le> 41" "\<bar>41::real\<bar> < 2 ^ 128"
    "1 / 2 ^ 126 \<le> \<bar>41::real\<bar> \<and> \<bar>41::real\<bar> \<le> 2 ^ 126" "\<bar>0::real\<bar> < 2 ^ 128"
    by simp_all
  have v: "round_float (1 / 41) = 3273603 / 134217728"
    unfolding round_float_def
    using float_round_normal [of "- 126" "- 6" "1 / 41" 24]
    by (simp add: pow2_def round_even_def)
  have c1: "inverseMass (RigidBody_ctor 0 0 0 41) = 3273603 / 134217728"
    using m41 a(1) v by simp
  have c2: "mass (RigidBody_ctor 0 0 0 41) = 41" using m41 by blast
  have c3: "\<bar>inverseMass (RigidBody_ctor 0 0 0 41) * mass (RigidBody_ctor 0 0 0 41) - 1\<bar>
              \<le> 1 / 2 ^ 24"
    using m41 a(4) by blast
  have c4: "inverseMass (RigidBody_ctor 0 0 0 41) \<noteq> 0" using m41 a(1) a(3) by blast
  have c5: "0 \<le> mass (RigidBody_ctor 0 0 0 41)" using m41 a(2) by blast
  have c0: "inverseMass (RigidBody_ctor 0 0 0 0) = 0"
    using m0 a(5) by blast
  have n: "mass (bodies ?g ! 3 ! 4) = 1 \<and> inverseMass (bodies ?g ! 3 ! 4) = 1"
    using m41 b i by blast
  have "mass (bodies g' ! 3 ! 4) = mass (bodies ?g ! 3 ! 4)
         \<and> inverseMass (bodies g' ! 3 ! 4) = inverseMass (bodies ?g ! 3 ! 4)"
    using m41 ok u i by (simp add: lattice_fields)
  with n c0 c1 c2 c3 c4 c5 u show ?thesis by simp
qed

text \<open>
  C8 as stated fails on "mass is never negative": the constructor accepts a negative
  mass and stores it.
\<close>

theorem negative_mass_counterexample:
  "mass (RigidBody_ctor (Vec3 0 0 0) (Vec3 0 0 0) (Vec3 0 0 0) (- 1)) = - 1
   \<and> mass (RigidBody_ctor (Vec3 0 0 0) (Vec3 0 0 0) (Vec3 0 0 0) (- 1)) < 0
   \<and> inverseMass (RigidBody_ctor (Vec3 0 0 0) (Vec3 0 0 0) (Vec3 0 0 0) (- 1)) = - 1"
proof -
  have "round_float (- 1) = - 1"
    by (rule round_float_exact [of "- 1" "- 1" 0]) simp_all
  then show ?thesis by (simp add: RigidBody_ctor_def)
qed

text \<open>
  C10, as the code has it. The constructor checks nothing. With positive subdivision
  counts it returns a grid whatever the extents; with zero extents the rest lengths are
  zero and every node is at the origin, and a grid of more than one node then has its
  first step normalise a zero vector. With a subdivision count of zero and none negative
  it returns an object without nodes whose rest length is not finite. Only a negative
  count stops the construction, in the array allocation.
\<close>

theorem construction_unchecked:
  "(0 < subX \<and> 0 < subY \<longrightarrow>
      (\<exists>g. SoftBody_ctor width height subX subY coeff damp = Built g \<and> grid_ok g
         \<and> restWidth g = width / real_of_int subX \<and> restHeight g = height / real_of_int subY
         \<and> (width = 0 \<and> height = 0 \<longrightarrow>
              restWidth g = 0 \<and> restHeight g = 0
              \<and> (\<forall>i < nat subY. \<forall>j < nat subX. position (bodies g ! i ! j) = 0)
              \<and> (2 \<le> subX \<or> 2 \<le> subY \<longrightarrow> update inp dt g = None))))
   \<and> (0 \<le> subX \<and> 0 \<le> subY \<and> (subX = 0 \<or> subY = 0) \<longrightarrow>
        SoftBody_ctor width height subX subY coeff damp = BuiltNonFinite)
   \<and> (subY < 0 \<or> (0 < subY \<and> subX < 0) \<longrightarrow>
        SoftBody_ctor width height subX subY coeff damp = AllocationThrows)"
proof (intro conjI impI)
  assume p: "0 < subX \<and> 0 < subY"
  let ?g = "lattice width height subX subY coeff damp"
  have b: "SoftBody_ctor width height subX subY coeff damp = Built ?g"
    using p by (simp add: SoftBody_ctor_positive)
  have z: "restWidth ?g = 0 \<and> restHeight ?g = 0
        \<and> (\<forall>i < nat subY. \<forall>j < nat subX. position (bodies ?g ! i ! j) = 0)
        \<and> (2 \<le> subX \<or> 2 \<le> subY \<longrightarrow> update inp dt ?g = None)"
    if w: "width = 0 \<and> height = 0"
  proof -
    have "degenerate_link ?g" if "2 \<le> subX \<or> 2 \<le> subY"
      using that w p by (intro coincident_degenerate) (auto simp: lattice_coincident)
    then have "2 \<le> subX \<or> 2 \<le> subY \<longrightarrow> update inp dt ?g = None"
      using update_defined_iff(1) [OF lattice_ok, of inp dt width height subX subY coeff damp]
      by simp
    then show ?thesis using w by (simp add: lattice_position zero_vec3_def)
  qed
  show "\<exists>g. SoftBody_ctor width height subX subY coeff damp = Built g \<and> grid_ok g
         \<and> restWidth g = width / real_of_int subX \<and> restHeight g = height / real_of_int subY
         \<and> (width = 0 \<and> height = 0 \<longrightarrow>
              restWidth g = 0 \<and> restHeight g = 0
              \<and> (\<forall>i < nat subY. \<forall>j < nat subX. position (bodies g ! i ! j) = 0)
              \<and> (2 \<le> subX \<or> 2 \<le> subY \<longrightarrow> update inp dt g = None))"
    using b z lattice_ok [of width height subX subY coeff damp]
    by (intro exI [of _ ?g]) simp
next
  assume "0 \<le> subX \<and> 0 \<le> subY \<and> (subX = 0 \<or> subY = 0)"
  then show "SoftBody_ctor width height subX subY coeff damp = BuiltNonFinite"
    by (auto simp: SoftBody_ctor_def)
next
  assume "subY < 0 \<or> (0 < subY \<and> subX < 0)"
  then show "SoftBody_ctor width height subX subY coeff damp = AllocationThrows"
    by (auto simp: SoftBody_ctor_def)
qed

theorem construction_unchecked_witness:
  "(\<exists>g. SoftBody_ctor 0 0 10 10 25 (1 / 2) = Built g \<and> grid_ok g
       \<and> restWidth g = 0 \<and> restHeight g = 0 \<and> position (bodies g ! 9 ! 9) = 0
       \<and> update no_input (3 / 250) g = None)
   \<and> SoftBody_ctor 1 1 0 10 25 (1 / 2) = BuiltNonFinite
   \<and> SoftBody_ctor 1 1 10 (- 1) 25 (1 / 2) = AllocationThrows"
proof -
  note c = construction_unchecked [where width = 0 and height = 0 and subX = 10 and subY = 10
      and coeff = 25 and damp = "1 / 2" and inp = no_input and dt = "3 / 250"]
  have p: "(0::int) < 10 \<and> (0::int) < 10" by simp
  from c [THEN conjunct1, rule_format, OF p]
  obtain g where b: "SoftBody_ctor 0 0 10 10 25 (1 / 2) = Built g" and ok: "grid_ok g"
    and z: "(0::real) = 0 \<and> (0::real) = 0 \<longrightarrow>
              restWidth g = 0 \<and> restHeight g = 0
              \<and> (\<forall>i < nat 10. \<forall>j < nat 10. position (bodies g ! i ! j) = 0)
              \<and> (2 \<le> (10::int) \<or> 2 \<le> (10::int) \<longrightarrow> update no_input (3 / 250) g = None)"
    by blast
  have r: "restWidth g = 0" "restHeight g = 0"
    and n: "\<forall>i < nat 10. \<forall>j < nat 10. position (bodies g ! i ! j) = 0"
    and u: "update no_input (3 / 250) g = None"
    using z by simp_all
  have "position (bodies g ! 9 ! 9) = 0" using n [rule_format, of 9 9] by simp
  with b ok r u have first: "\<exists>g. SoftBody_ctor 0 0 10 10 25 (1 / 2) = Built g \<and> grid_ok g
       \<and> restWidth g = 0 \<and> restHeight g = 0 \<and> position (bodies g ! 9 ! 9) = 0
       \<and> update no_input (3 / 250) g = None"
    by blast
  have "SoftBody_ctor 1 1 0 10 25 (1 / 2) = BuiltNonFinite"
    using construction_unchecked [where width = 1 and height = 1 and subX = 0 and subY = 10
      and coeff = 25 and damp = "1 / 2", THEN conjunct2, THEN conjunct1]
    by simp
  moreover have "SoftBody_ctor 1 1 10 (- 1) 25 (1 / 2) = AllocationThrows"
    using construction_unchecked [where width = 1 and height = 1 and subX = 10 and subY = "- 1"
      and coeff = 25 and damp = "1 / 2", THEN conjunct2, THEN conjunct2]
    by simp
  ultimately show ?thesis using first by blast
qed

text \<open>
  C10 as stated fails: zero extents are not rejected (the grid is built, with zero rest
  lengths and all four nodes at the origin, two linked nodes coinciding), and neither
  are zero subdivision counts (the object is built with a rest length that is not
  finite).
\<close>

theorem no_fail_fast_counterexample:
  "SoftBody_ctor 0 0 2 2 25 (1 / 2) = Built (lattice 0 0 2 2 25 (1 / 2))
   \<and> restWidth (lattice 0 0 2 2 25 (1 / 2)) = 0
   \<and> restHeight (lattice 0 0 2 2 25 (1 / 2)) = 0
   \<and> map position (concat (bodies (lattice 0 0 2 2 25 (1 / 2))))
       = [Vec3 0 0 0, Vec3 0 0 0, Vec3 0 0 0, Vec3 0 0 0]
   \<and> coincident_link (lattice 0 0 2 2 25 (1 / 2))
   \<and> SoftBody_ctor 1 1 0 0 25 (1 / 2) = BuiltNonFinite"
proof -
  have u: "[0..<nat 2] = [0, 1]" by (simp add: upt_rec)
  have ps: "map position (concat (bodies (lattice 0 0 2 2 25 (1 / 2))))
       = [Vec3 0 0 0, Vec3 0 0 0, Vec3 0 0 0, Vec3 0 0 0]"
    unfolding lattice_positions u by simp
  have c: "coincident_link (lattice 0 0 2 2 25 (1 / 2))" by (simp add: lattice_coincident)
  have n: "SoftBody_ctor 1 1 0 0 25 (1 / 2) = BuiltNonFinite" by (simp add: SoftBody_ctor_def)
  show ?thesis using ps c n by (simp add: SoftBody_ctor_positive)
qed

end
